theory Spec2Isabelle
  imports Complex_Main "HOL-Library.Sublist"
begin

section \<open>Pagination view (src/hooks/usePagination.ts)\<close>

text \<open>
  The hook keeps one piece of state, the 1-based \<open>currentPage\<close>; the source list
  \<open>allItems\<close> and the page size \<open>ITEMS_PER_PAGE\<close> are inputs of every render.
  A JavaScript number that holds a page is an integer here (\<open>int\<close>), an array length a
  \<open>nat\<close>. The page size is a positive integer in every use of the hook (the default and
  the only caller pass 5); the theorems below say so where they need it.
\<close>

record pagination =
  currentPage :: int


text \<open>\<open>Math.ceil(allItems.length / ITEMS_PER_PAGE)\<close>\<close>

definition totalPages :: "'a list \<Rightarrow> nat \<Rightarrow> int" where
  "totalPages allItems ITEMS_PER_PAGE =
     \<lceil>real (length allItems) / real ITEMS_PER_PAGE\<rceil>"

text \<open>
  \<open>Array.prototype.slice(0, end)\<close>: a negative \<open>end\<close> counts from the end of the
  array, and the result stops at the length of the array.
\<close>

definition slice0 :: "'a list \<Rightarrow> int \<Rightarrow> 'a list" where
  "slice0 xs e =
     (let len = int (length xs);
          final = (if e < 0 then max (len + e) 0 else min e len)
      in take (nat final) xs)"

definition displayedItems :: "'a list \<Rightarrow> nat \<Rightarrow> pagination \<Rightarrow> 'a list" where
  "displayedItems allItems ITEMS_PER_PAGE s =
     (let endIndex = currentPage s * int ITEMS_PER_PAGE in slice0 allItems endIndex)"

definition remainingItems :: "'a list \<Rightarrow> nat \<Rightarrow> pagination \<Rightarrow> int" where
  "remainingItems allItems ITEMS_PER_PAGE s =
     int (length allItems) - int (length (displayedItems allItems ITEMS_PER_PAGE s))"

definition hasNextPage :: "'a list \<Rightarrow> nat \<Rightarrow> pagination \<Rightarrow> bool" where
  "hasNextPage allItems ITEMS_PER_PAGE s \<longleftrightarrow>
     currentPage s < totalPages allItems ITEMS_PER_PAGE"

definition loadMore :: "'a list \<Rightarrow> nat \<Rightarrow> pagination \<Rightarrow> pagination" where
  "loadMore allItems ITEMS_PER_PAGE s =
     (let prev = currentPage s; nextPage = prev + 1
      in s\<lparr>currentPage :=
           (if nextPage \<le> totalPages allItems ITEMS_PER_PAGE then nextPage else prev)\<rparr>)"

definition showLess :: "pagination \<Rightarrow> pagination" where
  "showLess s =
     (let prev = currentPage s; prevPage = prev - 1
      in s\<lparr>currentPage := (if prevPage \<ge> 1 then prevPage else 1)\<rparr>)"








section \<open>Strings\<close>

text \<open>
  A JavaScript string is a sequence of UTF-16 code units. The model covers the strings
  whose code units lie in U+0000 .. U+00FF: a \<open>char\<close> is one such code unit. In that
  range \<open>String.prototype.trim\<close> removes TAB, LF, VT, FF, CR, SPACE and NBSP, and
  \<open>toLowerCase\<close> maps A .. Z and the capital letters U+00C0 .. U+00DE (U+00D7, the
  multiplication sign, is no letter) to the code unit 32 above.
\<close>

definition isWhiteSpace :: "char \<Rightarrow> bool" where
  "isWhiteSpace c \<longleftrightarrow> (of_char c :: nat) \<in> {9, 10, 11, 12, 13, 32, 160}"

definition trim :: "string \<Rightarrow> string" where
  "trim s = rev (dropWhile isWhiteSpace (rev (dropWhile isWhiteSpace s)))"

definition lowerChar :: "char \<Rightarrow> char" where
  "lowerChar c =
     (let n = (of_char c :: nat)
      in if (65 \<le> n \<and> n \<le> 90) \<or> (192 \<le> n \<and> n \<le> 222 \<and> n \<noteq> 215)
         then char_of (n + 32) else c)"

definition toLowerCase :: "string \<Rightarrow> string" where
  "toLowerCase s = map lowerChar s"

text \<open>\<open>s.includes(q)\<close>: \<open>q\<close> occurs in \<open>s\<close> as a run of consecutive code units.\<close>

definition includes_str :: "string \<Rightarrow> string \<Rightarrow> bool" where
  "includes_str s q \<longleftrightarrow> sublist q s"

text \<open>\<open>s.padStart(2, "0")\<close>\<close>

definition padStart2 :: "string \<Rightarrow> string" where
  "padStart2 s = replicate (2 - length s) CHR ''0'' @ s"

text \<open>The decimal text of a non-negative integer, as a template literal renders it.\<close>

definition digitChar :: "nat \<Rightarrow> char" where
  "digitChar d = char_of (48 + d)"

fun numberToString :: "nat \<Rightarrow> string" where
  "numberToString n =
     (if n < 10 then [digitChar n] else numberToString (n div 10) @ [digitChar (n mod 10)])"

declare numberToString.simps [simp del]

section \<open>The clock and the random source\<close>

text \<open>
  The hooks read the clock and \<open>Math.random\<close>; what they read is an input of the model.
  \<open>isoNow\<close> is \<open>new Date().toISOString()\<close>, \<open>dateNow\<close> is \<open>Date.now()\<close> (milliseconds
  since 1970, not negative), \<open>randomSuffix\<close> is
  \<open>Math.random().toString(36).substr(2, 9)\<close>, and \<open>fullYear\<close>, \<open>month\<close> (from 0) and
  \<open>dayOfMonth\<close> are \<open>getFullYear()\<close>, \<open>getMonth()\<close> and \<open>getDate()\<close> of the local date.
\<close>

record env =
  isoNow :: string
  dateNow :: nat
  randomSuffix :: string
  fullYear :: nat
  month :: nat
  dayOfMonth :: nat

text \<open>\<open>`${Date.now()}-${Math.random().toString(36).substr(2, 9)}`\<close>\<close>

definition generateId :: "env \<Rightarrow> string" where
  "generateId e = numberToString (dateNow e) @ ''-'' @ randomSuffix e"

section \<open>To-do state container (src/hooks/useTodos.ts)\<close>

text \<open>
  The fields \<open>id\<close> and \<open>text\<close> of the source are \<open>idT\<close> and \<open>textT\<close> here. Every
  mutation is \<open>setTodos(prev => f(prev))\<close>: the model of a mutation is the function
  \<open>f\<close> from the list before to the list after.
\<close>

record Todo =
  idT :: string
  textT :: string
  completed :: bool
  createdAt :: string
  updatedAt :: string

datatype FilterType = FilterAll | FilterActive | FilterCompleted

definition addTodo :: "env \<Rightarrow> string \<Rightarrow> Todo list \<Rightarrow> Todo list" where
  "addTodo e txt prev =
     (let trimmedText = trim txt
      in if trimmedText = [] then prev
         else
           let now = isoNow e;
               newTodo = \<lparr>idT = generateId e, textT = trimmedText, completed = False,
                          createdAt = now, updatedAt = now\<rparr>
           in newTodo # prev)"

text \<open>\<open>now\<close> is the clock as \<open>new Date().toISOString()\<close> reads it during the call.\<close>

definition toggleTodo :: "string \<Rightarrow> string \<Rightarrow> Todo list \<Rightarrow> Todo list" where
  "toggleTodo now i prev =
     map (\<lambda>t. if idT t = i then t\<lparr>completed := \<not> completed t, updatedAt := now\<rparr> else t) prev"

definition deleteTodo :: "string \<Rightarrow> Todo list \<Rightarrow> Todo list" where
  "deleteTodo i prev = filter (\<lambda>t. idT t \<noteq> i) prev"

definition editTodo :: "string \<Rightarrow> string \<Rightarrow> string \<Rightarrow> Todo list \<Rightarrow> Todo list" where
  "editTodo now i newText prev =
     (let trimmedText = trim newText
      in if trimmedText = [] then prev
         else map (\<lambda>t. if idT t = i then t\<lparr>textT := trimmedText, updatedAt := now\<rparr> else t) prev)"

definition clearCompleted :: "Todo list \<Rightarrow> Todo list" where
  "clearCompleted prev = filter (\<lambda>t. \<not> completed t) prev"

definition filteredTodos :: "Todo list \<Rightarrow> FilterType \<Rightarrow> string \<Rightarrow> Todo list" where
  "filteredTodos todos flt searchQuery =
     filter (\<lambda>t. includes_str (toLowerCase (textT t)) (toLowerCase searchQuery))
       (filter (\<lambda>t. if flt = FilterActive then \<not> completed t
                     else if flt = FilterCompleted then completed t
                     else True) todos)"

record stats =
  total :: nat
  active :: nat
  completedS :: nat

definition todoStats :: "Todo list \<Rightarrow> stats" where
  "todoStats todos =
     \<lparr>total = length todos,
      active = length (filter (\<lambda>t. \<not> completed t) todos),
      completedS = length (filter (\<lambda>t. completed t) todos)\<rparr>"

text \<open>The spec's words for the filtered view.\<close>

definition passes_selector :: "FilterType \<Rightarrow> Todo \<Rightarrow> bool" where
  "passes_selector flt t =
     (case flt of FilterAll \<Rightarrow> True | FilterActive \<Rightarrow> \<not> completed t | FilterCompleted \<Rightarrow> completed t)"

definition contains_ci :: "string \<Rightarrow> string \<Rightarrow> bool" where
  "contains_ci s q \<longleftrightarrow> sublist (toLowerCase q) (toLowerCase s)"

section \<open>Note state container (useNotes.ts)\<close>

text \<open>
  The fields \<open>id\<close>, \<open>createdAt\<close> and \<open>updatedAt\<close> of a note are \<open>idN\<close>, \<open>createdAtN\<close>
  and \<open>updatedAtN\<close> here. \<open>addNote\<close> and \<open>updateNote\<close> can throw: their model
  returns the outcome (\<open>Inl (Error msg)\<close> for \<open>throw new Error(msg)\<close>, \<open>Inr\<close> with the
  value returned otherwise) together with the list the container holds after the call.
  A call that throws has not reached \<open>setNotes\<close>: the list is the one before the call.
\<close>

record Note =
  idN :: string
  content :: string
  date :: string
  createdAtN :: string
  updatedAtN :: string
  convertedToTodo :: bool

datatype error = Error string | TypeError

definition getTodayDate :: "env \<Rightarrow> string" where
  "getTodayDate e =
     (let year = fullYear e;
          month = padStart2 (numberToString (month e + 1));
          day = padStart2 (numberToString (dayOfMonth e))
      in numberToString year @ ''-'' @ month @ ''-'' @ day)"

definition addNote :: "env \<Rightarrow> string \<Rightarrow> Note list \<Rightarrow> (error + Note) \<times> Note list" where
  "addNote e cnt prev =
     (let trimmedContent = trim cnt
      in if trimmedContent = [] then (Inl (Error ''Konten catatan tidak boleh kosong''), prev)
         else
           let now = isoNow e;
               newNote = \<lparr>idN = generateId e, content = trimmedContent,
                          date = getTodayDate e, createdAtN = now, updatedAtN = now,
                          convertedToTodo = False\<rparr>
           in (Inr newNote, newNote # prev))"

definition updateNote ::
    "string \<Rightarrow> string \<Rightarrow> string \<Rightarrow> Note list \<Rightarrow> (error + unit) \<times> Note list" where
  "updateNote now i cnt prev =
     (let trimmedContent = trim cnt
      in if trimmedContent = [] then (Inl (Error ''Konten catatan tidak boleh kosong''), prev)
         else (Inr (),
               map (\<lambda>n. if idN n = i
                         then n\<lparr>content := trimmedContent, updatedAtN := now\<rparr>
                         else n) prev))"

definition deleteNote :: "string \<Rightarrow> Note list \<Rightarrow> Note list" where
  "deleteNote i prev = filter (\<lambda>n. idN n \<noteq> i) prev"

definition markAsConverted :: "string \<Rightarrow> string \<Rightarrow> Note list \<Rightarrow> Note list" where
  "markAsConverted now i prev =
     map (\<lambda>n. if idN n = i then n\<lparr>convertedToTodo := True, updatedAtN := now\<rparr> else n) prev"

section \<open>Sample data\<close>

definition env_monday :: env where
  "env_monday =
     \<lparr>isoNow = ''2025-01-20T08:00:00.000Z'', dateNow = 1737360000000,
      randomSuffix = ''k3j9x0a1b'', fullYear = 2025, month = 0, dayOfMonth = 20\<rparr>"

definition env_later :: env where
  "env_later =
     \<lparr>isoNow = ''2025-01-20T08:00:00.001Z'', dateNow = 1737360000001,
      randomSuffix = ''k3j9x0a1b'', fullYear = 2025, month = 0, dayOfMonth = 20\<rparr>"

definition todo_milk :: Todo where
  "todo_milk =
     \<lparr>idT = ''1-a'', textT = ''Buy Milk'', completed = False,
      createdAt = ''2025-01-19T10:00:00.000Z'', updatedAt = ''2025-01-19T10:00:00.000Z''\<rparr>"

definition todo_mail :: Todo where
  "todo_mail =
     \<lparr>idT = ''2-b'', textT = ''Send mail'', completed = True,
      createdAt = ''2025-01-19T11:00:00.000Z'', updatedAt = ''2025-01-19T12:00:00.000Z''\<rparr>"

definition todo_walk :: Todo where
  "todo_walk =
     \<lparr>idT = ''3-c'', textT = ''Walk the dog'', completed = False,
      createdAt = ''2025-01-19T13:00:00.000Z'', updatedAt = ''2025-01-19T13:00:00.000Z''\<rparr>"

definition note_monday :: Note where
  "note_monday =
     \<lparr>idN = ''7-n'', content = ''Rapat Tim jam 9'', date = ''2025-01-20'',
      createdAtN = ''2025-01-20T01:00:00.000Z'', updatedAtN = ''2025-01-20T01:00:00.000Z'',
      convertedToTodo = False\<rparr>"

definition note_sunday :: Note where
  "note_sunday =
     \<lparr>idN = ''6-m'', content = ''Belanja mingguan'', date = ''2025-01-19'',
      createdAtN = ''2025-01-19T02:00:00.000Z'', updatedAtN = ''2025-01-19T02:00:00.000Z'',
      convertedToTodo = False\<rparr>"

section \<open>Note search (src/components/todo/NotesSearch.tsx)\<close>

text \<open>
  \<open>getDayName\<close> builds \<open>new Date(dateString + "T00:00:00")\<close> and takes \<open>getDay()\<close> of
  it. The model follows ECMAScript. The text is a date-time without a zone, which is
  read as local time: the time value is \<open>UTC(MakeDate(MakeDay(year, month, day), 0))\<close>
  and \<open>getDay()\<close> is \<open>WeekDay(LocalTime(tv))\<close>, 0 being Sunday. The time zone of the
  browser is an input of the model: \<open>z t isUTC\<close> is ECMAScript's
  \<open>LocalTZA(t, isUTC)\<close>, the offset in milliseconds in force at the UTC time \<open>t\<close> or at
  the local time \<open>t\<close>. The text that is read is \<open>YYYY-MM-DD\<close> followed by
  \<open>T00:00:00\<close>, with a month from 01 to 12 and a day from 01 to 31, a day past the end
  of its month counting on into the next month, as V8 reads it. Any other text is an
  invalid date here: its \<open>getDay()\<close> is \<open>NaN\<close>. Months count from 1 in \<open>MakeDay\<close>.
\<close>

definition isDigit :: "char \<Rightarrow> bool" where
  "isDigit c \<longleftrightarrow> 48 \<le> (of_char c :: nat) \<and> (of_char c :: nat) \<le> 57"

definition digitsValue :: "string \<Rightarrow> nat" where
  "digitsValue s = foldl (\<lambda>a c. 10 * a + (of_char c - 48)) 0 s"

definition parseDate :: "string \<Rightarrow> (nat \<times> nat \<times> nat) option" where
  "parseDate s =
     (let ys = take 4 s; ms = take 2 (drop 5 s); ds = take 2 (drop 8 s)
      in if length s = 19 \<and> list_all isDigit ys \<and> take 1 (drop 4 s) = ''-'' \<and>
            list_all isDigit ms \<and> take 1 (drop 7 s) = ''-'' \<and> list_all isDigit ds \<and>
            drop 10 s = ''T00:00:00''
         then
           let y = digitsValue ys; m = digitsValue ms; d = digitsValue ds
           in if 1 \<le> m \<and> m \<le> 12 \<and> 1 \<le> d \<and> d \<le> 31
              then Some (y, m, d) else None
         else None)"

definition InLeapYear :: "nat \<Rightarrow> int" where
  "InLeapYear y =
     (if y mod 4 \<noteq> 0 then 0 else if y mod 100 \<noteq> 0 then 1 else if y mod 400 \<noteq> 0 then 0 else 1)"

definition DayFromYear :: "int \<Rightarrow> int" where
  "DayFromYear y =
     365 * (y - 1970) + (y - 1969) div 4 - (y - 1901) div 100 + (y - 1601) div 400"

text \<open>The day within the year on which month \<open>m\<close> starts (the bounds of \<open>MonthFromTime\<close>).\<close>

definition monthStart :: "nat \<Rightarrow> nat \<Rightarrow> int" where
  "monthStart y m =
     (let l = InLeapYear y
      in [0, 31, 59 + l, 90 + l, 120 + l, 151 + l, 181 + l, 212 + l, 243 + l, 273 + l,
          304 + l, 334 + l] ! (m - 1))"

definition MakeDay :: "nat \<Rightarrow> nat \<Rightarrow> nat \<Rightarrow> int" where
  "MakeDay y m d = DayFromYear (int y) + monthStart y m + int d - 1"

definition msPerDay :: int where
  "msPerDay = 86400000"

definition MakeDate :: "int \<Rightarrow> int \<Rightarrow> int" where
  "MakeDate day time = day * msPerDay + time"

definition Day :: "int \<Rightarrow> int" where
  "Day t = t div msPerDay"

definition WeekDay :: "int \<Rightarrow> nat" where
  "WeekDay t = nat ((Day t + 4) mod 7)"

type_synonym zone = "int \<Rightarrow> bool \<Rightarrow> int"

definition LocalTime :: "zone \<Rightarrow> int \<Rightarrow> int" where
  "LocalTime z t = t + z t True"

definition UTC :: "zone \<Rightarrow> int \<Rightarrow> int" where
  "UTC z t = t - z t False"

text \<open>\<open>new Date(s).getDay()\<close>; \<open>None\<close> is \<open>NaN\<close>.\<close>

definition getDay :: "zone \<Rightarrow> string \<Rightarrow> nat option" where
  "getDay z s =
     (case parseDate s of
        None \<Rightarrow> None
      | Some (y, m, d) \<Rightarrow> Some (WeekDay (LocalTime z (UTC z (MakeDate (MakeDay y m d) 0)))))"

definition days :: "string list" where
  "days = [''Minggu'', ''Senin'', ''Selasa'', ''Rabu'', ''Kamis'', ''Jumat'', ''Sabtu'']"

text \<open>\<open>days[date.getDay()]\<close>; \<open>None\<close> is \<open>undefined\<close>, what \<open>days[NaN]\<close> is.\<close>

definition getDayName :: "zone \<Rightarrow> string \<Rightarrow> string option" where
  "getDayName z dateString =
     (case getDay z (dateString @ ''T00:00:00'') of
        None \<Rightarrow> None
      | Some i \<Rightarrow> Some (days ! i))"

text \<open>
  The callback of \<open>notes.filter\<close>. \<open>getDayName(note.date).toLowerCase()\<close> throws a
  \<open>TypeError\<close> when the day name is \<open>undefined\<close>.
\<close>

definition noteMatches :: "zone \<Rightarrow> string \<Rightarrow> Note \<Rightarrow> error + bool" where
  "noteMatches z query n =
     (if includes_str (date n) query then Inr True
      else
        case getDayName z (date n) of
          None \<Rightarrow> Inl TypeError
        | Some name \<Rightarrow>
            let dayName = toLowerCase name
            in if includes_str dayName query then Inr True
               else if includes_str (toLowerCase (content n)) query then Inr True
               else Inr False)"

text \<open>\<open>Array.prototype.filter\<close> with a callback that can throw.\<close>

fun filterE :: "('a \<Rightarrow> error + bool) \<Rightarrow> 'a list \<Rightarrow> error + 'a list" where
  "filterE p [] = Inr []"
| "filterE p (x # xs) =
     (case p x of
        Inl e \<Rightarrow> Inl e
      | Inr b \<Rightarrow>
          (case filterE p xs of
             Inl e \<Rightarrow> Inl e
           | Inr ys \<Rightarrow> Inr (if b then x # ys else ys)))"

definition filteredNotes :: "zone \<Rightarrow> Note list \<Rightarrow> string \<Rightarrow> error + Note list" where
  "filteredNotes z ns searchQuery =
     (if trim searchQuery = [] then Inr ns
      else
        let query = trim (toLowerCase searchQuery)
        in filterE (noteMatches z query) ns)"

text \<open>
  The spec's words for the search. A note's date is a date text when it reads as
  year, month and day. The day of the week of a date is given by the tabular
  congruence on year, month and day of the Gregorian calendar, on its own table and
  with no day count from 1970; its names are the Indonesian ones.
\<close>

definition isDateText :: "string \<Rightarrow> bool" where
  "isDateText s \<longleftrightarrow> parseDate (s @ ''T00:00:00'') \<noteq> None"

definition monthKey :: "nat \<Rightarrow> int" where
  "monthKey m = [0, 3, 2, 5, 0, 3, 5, 1, 4, 6, 2, 4] ! (m - 1)"

definition leapCount :: "int \<Rightarrow> int" where
  "leapCount x = x div 4 - x div 100 + x div 400"

definition weekdayOfDate :: "nat \<Rightarrow> nat \<Rightarrow> nat \<Rightarrow> nat" where
  "weekdayOfDate y m d =
     (let y' = (if m < 3 then int y - 1 else int y)
      in nat ((y' + leapCount y' + monthKey m + int d) mod 7))"

definition dayNameIndonesian :: "nat \<Rightarrow> string" where
  "dayNameIndonesian w =
     (if w = 0 then ''Minggu'' else if w = 1 then ''Senin'' else if w = 2 then ''Selasa''
      else if w = 3 then ''Rabu'' else if w = 4 then ''Kamis'' else if w = 5 then ''Jumat''
      else ''Sabtu'')"

definition weekdayName :: "string \<Rightarrow> string" where
  "weekdayName s =
     (case parseDate (s @ ''T00:00:00'') of
        None \<Rightarrow> []
      | Some (y, m, d) \<Rightarrow> dayNameIndonesian (weekdayOfDate y m d))"

definition search_matches :: "string \<Rightarrow> Note \<Rightarrow> bool" where
  "search_matches q n \<longleftrightarrow>
     contains_ci (date n) (trim q) \<or> contains_ci (weekdayName (date n)) (trim q) \<or>
     contains_ci (content n) (trim q)"

text \<open>
  In the zone \<open>z\<close>, local midnight of the date is a time of that date: the zone has
  not skipped the day.
\<close>

definition midnightOnDate :: "zone \<Rightarrow> string \<Rightarrow> bool" where
  "midnightOnDate z s =
     (case parseDate (s @ ''T00:00:00'') of
        None \<Rightarrow> False
      | Some (y, m, d) \<Rightarrow>
          Day (LocalTime z (UTC z (MakeDate (MakeDay y m d) 0))) = MakeDay y m d)"

text \<open>
  Sample zones and notes: Jakarta, seven hours ahead of UTC all year; Apia around the
  end of 2011, ten hours behind UTC until 2011-12-30T10:00Z and fourteen hours ahead
  after, so that 30 December 2011 did not take place there.
\<close>

definition zone_jakarta :: zone where
  "zone_jakarta t isUTC = 25200000"

definition zone_apia :: zone where
  "zone_apia t isUTC =
     (if isUTC then (if t < 1325239200000 then - 36000000 else 50400000)
      else (if t < 1325289600000 then - 36000000 else 50400000))"

definition note_apia :: Note where
  "note_apia =
     \<lparr>idN = ''5-k'', content = ''Terbang ke Apia'', date = ''2011-12-30'',
      createdAtN = ''2011-12-28T02:00:00.000Z'', updatedAtN = ''2011-12-28T02:00:00.000Z'',
      convertedToTodo = False\<rparr>"

definition note_slashes :: Note where
  "note_slashes =
     \<lparr>idN = ''4-j'', content = ''Rapat Tim jam 9'', date = ''20/01/2025'',
      createdAtN = ''2025-01-20T01:00:00.000Z'', updatedAtN = ''2025-01-20T01:00:00.000Z'',
      convertedToTodo = False\<rparr>"

section \<open>Persistent store adapter (useLocalStorage.ts)\<close>

text \<open>
  The browser's \<open>localStorage\<close> is the map of its entries, together with what makes its
  calls throw: access to it can be denied (\<open>available\<close> is false, a \<open>SecurityError\<close>),
  and it can refuse to store a text under a key (\<open>accepts\<close> is false, a
  \<open>QuotaExceededError\<close>).
\<close>

record storage =
  items :: "string \<Rightarrow> string option"
  available :: bool
  accepts :: "string \<Rightarrow> string \<Rightarrow> bool"

datatype exception = SecurityError | QuotaExceededError | SyntaxError

definition getItem :: "storage \<Rightarrow> string \<Rightarrow> exception + string option" where
  "getItem st k = (if available st then Inr (items st k) else Inl SecurityError)"

definition setItem :: "storage \<Rightarrow> string \<Rightarrow> string \<Rightarrow> exception + storage" where
  "setItem st k s =
     (if \<not> available st then Inl SecurityError
      else if accepts st k s then Inr (st\<lparr>items := (items st)(k \<mapsto> s)\<rparr>)
      else Inl QuotaExceededError)"

text \<open>An \<open>item\<close> in a condition: \<open>null\<close> and the empty string are falsy.\<close>

definition truthy :: "string option \<Rightarrow> bool" where
  "truthy item = (case item of None \<Rightarrow> False | Some s \<Rightarrow> s \<noteq> [])"

text \<open>
  \<open>JSON.parse\<close> and \<open>JSON.stringify\<close> belong to the platform: they are parameters,
  \<open>parse :: string \<Rightarrow> 'v option\<close> and \<open>stringify :: 'v \<Rightarrow> string option\<close>, where \<open>None\<close> is a
  thrown exception.

  The lazy initial state of \<open>useState\<close>, which is the adapter's read: the whole body is
  in a \<open>try\<close> whose \<open>catch\<close> returns \<open>initialValue\<close>.
\<close>

definition readStored :: "(string \<Rightarrow> 'v option) \<Rightarrow> storage \<Rightarrow> string \<Rightarrow> 'v \<Rightarrow> 'v" where
  "readStored parse st key initialValue =
     (case getItem st key of
        Inl _ \<Rightarrow> initialValue
      | Inr item \<Rightarrow>
          if truthy item
          then (case parse (the item) of None \<Rightarrow> initialValue | Some v \<Rightarrow> v)
          else initialValue)"

text \<open>
  \<open>setValue\<close> takes a value or a function of the previous value. It sets the state
  first and writes to the storage after; an exception of the write is caught and
  logged. The state of the model is the pair of \<open>storedValue\<close> and the storage.
\<close>

datatype 'v update = Value 'v | Updater "'v \<Rightarrow> 'v"

definition setValue ::
    "('v \<Rightarrow> string option) \<Rightarrow> string \<Rightarrow> 'v update \<Rightarrow> 'v \<times> storage \<Rightarrow> 'v \<times> storage" where
  "setValue stringify key value state =
     (let storedValue = fst state; st = snd state;
          valueToStore = (case value of Updater f \<Rightarrow> f storedValue | Value v \<Rightarrow> v)
      in case stringify valueToStore of
           None \<Rightarrow> (valueToStore, st)
         | Some s \<Rightarrow>
             (case setItem st key s of
                Inl _ \<Rightarrow> (valueToStore, st)
              | Inr st' \<Rightarrow> (valueToStore, st')))"

text \<open>The listener of the \<open>storage\<close> event, which another tab's write fires.\<close>

record storage_event =
  evKey :: "string option"
  newValue :: "string option"

definition handleStorageChange ::
    "(string \<Rightarrow> 'v option) \<Rightarrow> string \<Rightarrow> storage_event \<Rightarrow> 'v \<Rightarrow> 'v" where
  "handleStorageChange parse key e storedValue =
     (if evKey e = Some key \<and> truthy (newValue e)
      then (case parse (the (newValue e)) of None \<Rightarrow> storedValue | Some v \<Rightarrow> v)
      else storedValue)"

text \<open>Sample data: a store that takes every write, a full one, JSON for the booleans.\<close>

definition storage_empty :: storage where
  "storage_empty = \<lparr>items = (\<lambda>k. None), available = True, accepts = (\<lambda>k s. True)\<rparr>"

definition storage_full :: storage where
  "storage_full = \<lparr>items = (\<lambda>k. None), available = True, accepts = (\<lambda>k s. False)\<rparr>"

definition stringifyBool :: "bool \<Rightarrow> string option" where
  "stringifyBool b = Some (if b then ''true'' else ''false'')"

definition parseBool :: "string \<Rightarrow> bool option" where
  "parseBool s = (if s = ''true'' then Some True else if s = ''false'' then Some False else None)"

section \<open>The containers on the store adapter\<close>

text \<open>
  The to-do container's \<open>setTodos\<close> is the adapter's \<open>setValue\<close> under the key
  \<open>todos\<close>. \<open>useCallback\<close> makes a new \<open>setValue\<close>, and with it new actions of the
  container, when \<open>storedValue\<close> has changed: a call applies its updater to the
  \<open>storedValue\<close> of the render that made the function. The calls made before the next
  render, as the calls of one event handler are, all see that value, while the storage
  is written call after call; the state after them is what the last call has set.
\<close>

fun callsInRender ::
    "('v \<Rightarrow> string option) \<Rightarrow> string \<Rightarrow> 'v \<Rightarrow> 'v update list \<Rightarrow> 'v \<times> storage \<Rightarrow> 'v \<times> storage" where
  "callsInRender stringify key captured [] state = state"
| "callsInRender stringify key captured (u # us) state =
     callsInRender stringify key captured us (setValue stringify key u (captured, snd state))"

definition handlerCalls ::
    "('v \<Rightarrow> string option) \<Rightarrow> string \<Rightarrow> 'v update list \<Rightarrow> 'v \<times> storage \<Rightarrow> 'v \<times> storage" where
  "handlerCalls stringify key us state = callsInRender stringify key (fst state) us state"

section \<open>Facts about the pagination view\<close>

lemma totalPages_div [code]:
  "totalPages xs ps = (if ps = 0 then 0 else (int (length xs) + int ps - 1) div int ps)"
proof (cases "ps = 0")
  case True
  then show ?thesis by (simp add: totalPages_def)
next
  case False
  define n where "n = int (length xs)"
  define p where "p = int ps"
  have p: "0 < p" using False by (simp add: p_def)
  have "\<lceil>real_of_int n / real_of_int p\<rceil> = (n + p - 1) div p"
  proof (rule ceiling_unique)
    have m: "n + p - 1 = p * ((n + p - 1) div p) + (n + p - 1) mod p" by simp
    have lo: "0 \<le> (n + p - 1) mod p" and hi: "(n + p - 1) mod p < p"
      using p by simp_all
    have "p * ((n + p - 1) div p) \<le> n + p - 1" using m lo by linarith
    then have "p * ((n + p - 1) div p) - p < n" by linarith
    then have "p * ((n + p - 1) div p - 1) < n" by (simp add: algebra_simps)
    then have "real_of_int (p * ((n + p - 1) div p - 1)) < real_of_int n" by linarith
    then have "real_of_int ((n + p - 1) div p - 1) * real_of_int p < real_of_int n"
      by (simp add: mult.commute)
    then show "real_of_int ((n + p - 1) div p) - 1 < real_of_int n / real_of_int p"
      using p by (simp add: pos_less_divide_eq)
    have "n \<le> p * ((n + p - 1) div p)" using m hi by linarith
    then have "real_of_int n \<le> real_of_int (p * ((n + p - 1) div p))" by linarith
    then have "real_of_int n \<le> real_of_int ((n + p - 1) div p) * real_of_int p"
      by (simp add: mult.commute)
    then show "real_of_int n / real_of_int p \<le> real_of_int ((n + p - 1) div p)"
      using p by (simp add: pos_divide_le_eq)
  qed
  then show ?thesis using False by (simp add: totalPages_def n_def p_def)
qed

lemma div_le_of_less_mult:
  assumes p: "0 < (p::int)" and h: "a < (k + 1) * p"
  shows "a div p \<le> k"
proof -
  have m: "a = p * (a div p) + a mod p" by simp
  have "0 \<le> a mod p" using p by simp
  then have "p * (a div p) \<le> a" using m by linarith
  then have "p * (a div p) < p * (k + 1)" using h by (simp add: mult.commute)
  then have "a div p < k + 1" using p by (simp only: mult_less_cancel_left_pos)
  then show ?thesis by simp
qed

lemma totalPages_least:
  assumes "0 < ps"
  shows "int (length xs) \<le> totalPages xs ps * int ps"
    and "int (length xs) \<le> k * int ps \<Longrightarrow> totalPages xs ps \<le> k"
proof -
  define n where "n = int (length xs)"
  define p where "p = int ps"
  have p: "0 < p" using assms by (simp add: p_def)
  have tp: "totalPages xs ps = (n + p - 1) div p"
    using assms by (simp add: totalPages_div n_def p_def)
  have m: "n + p - 1 = p * ((n + p - 1) div p) + (n + p - 1) mod p" by simp
  have hi: "(n + p - 1) mod p < p" using p by simp
  have "n \<le> p * ((n + p - 1) div p)" using m hi by linarith
  then show "int (length xs) \<le> totalPages xs ps * int ps"
    by (simp add: tp n_def p_def mult.commute)
  assume "int (length xs) \<le> k * int ps"
  then have "n + p - 1 < (k + 1) * p" by (simp add: n_def p_def algebra_simps)
  then have "(n + p - 1) div p \<le> k" using p by (intro div_le_of_less_mult)
  then show "totalPages xs ps \<le> k" by (simp add: tp)
qed












lemma slice0_nonneg: "0 \<le> e \<Longrightarrow> slice0 xs e = take (min (nat e) (length xs)) xs"
  by (simp add: slice0_def Let_def min_def)

text \<open>
  Claim C2: for a positive page size and a page of at least 1 (which every reachable
  state has), the visible window is the prefix of the source of length
  \<open>min(currentPage * pageSize, sourceLength)\<close>; \<open>totalPages\<close> is the ceiling of
  \<open>sourceLength / pageSize\<close>, that is the least number of pages that hold every item;
  \<open>hasNext\<close> holds iff \<open>currentPage < totalPages\<close>; and for 13 items and pages of 5
  the visible lengths at pages 1, 2, 3 are 5, 10, 13, \<open>hasNext\<close> is true at pages 1
  and 2 and false at page 3, advancing at page 3 stays at page 3, and retreating at
  page 1 stays at page 1.
\<close>

theorem pagination_arithmetic:
  fixes xs :: "'a list"
  assumes "0 < ps" and "1 \<le> currentPage s"
  shows "displayedItems xs ps s = take (min (nat (currentPage s) * ps) (length xs)) xs \<and>
    totalPages xs ps = \<lceil>real (length xs) / real ps\<rceil> \<and>
    int (length xs) \<le> totalPages xs ps * int ps \<and>
    (\<forall>k. int (length xs) \<le> k * int ps \<longrightarrow> totalPages xs ps \<le> k) \<and>
    (hasNextPage xs ps s \<longleftrightarrow> currentPage s < totalPages xs ps) \<and>
    (length xs = 13 \<and> ps = 5 \<longrightarrow>
       length (displayedItems xs ps \<lparr>currentPage = 1\<rparr>) = 5 \<and>
       length (displayedItems xs ps \<lparr>currentPage = 2\<rparr>) = 10 \<and>
       length (displayedItems xs ps \<lparr>currentPage = 3\<rparr>) = 13 \<and>
       hasNextPage xs ps \<lparr>currentPage = 1\<rparr> \<and>
       hasNextPage xs ps \<lparr>currentPage = 2\<rparr> \<and>
       \<not> hasNextPage xs ps \<lparr>currentPage = 3\<rparr> \<and>
       loadMore xs ps \<lparr>currentPage = 3\<rparr> = \<lparr>currentPage = 3\<rparr> \<and>
       showLess \<lparr>currentPage = 1\<rparr> = \<lparr>currentPage = 1\<rparr>)"
proof (intro conjI)
  have e: "0 \<le> currentPage s * int ps" using assms by simp
  have "nat (currentPage s * int ps) = nat (currentPage s) * ps"
    using assms(2) by (simp add: nat_mult_distrib)
  then show "displayedItems xs ps s = take (min (nat (currentPage s) * ps) (length xs)) xs"
    using e by (simp add: displayedItems_def Let_def slice0_nonneg)
  show "totalPages xs ps = \<lceil>real (length xs) / real ps\<rceil>" by (simp add: totalPages_def)
  show "int (length xs) \<le> totalPages xs ps * int ps" using assms(1) by (rule totalPages_least)
  show "\<forall>k. int (length xs) \<le> k * int ps \<longrightarrow> totalPages xs ps \<le> k"
    using totalPages_least(2) [OF assms(1)] by blast
  show "hasNextPage xs ps s \<longleftrightarrow> currentPage s < totalPages xs ps" by (simp add: hasNextPage_def)
  show "length xs = 13 \<and> ps = 5 \<longrightarrow>
       length (displayedItems xs ps \<lparr>currentPage = 1\<rparr>) = 5 \<and>
       length (displayedItems xs ps \<lparr>currentPage = 2\<rparr>) = 10 \<and>
       length (displayedItems xs ps \<lparr>currentPage = 3\<rparr>) = 13 \<and>
       hasNextPage xs ps \<lparr>currentPage = 1\<rparr> \<and>
       hasNextPage xs ps \<lparr>currentPage = 2\<rparr> \<and>
       \<not> hasNextPage xs ps \<lparr>currentPage = 3\<rparr> \<and>
       loadMore xs ps \<lparr>currentPage = 3\<rparr> = \<lparr>currentPage = 3\<rparr> \<and>
       showLess \<lparr>currentPage = 1\<rparr> = \<lparr>currentPage = 1\<rparr>"
    by (simp add: displayedItems_def slice0_def hasNextPage_def totalPages_div loadMore_def showLess_def)
qed

theorem pagination_arithmetic_witness:
  "0 < (5::nat) \<and> 1 \<le> currentPage \<lparr>currentPage = 2\<rparr> \<and>
   displayedItems ''abcdefghijklm'' 5 \<lparr>currentPage = 2\<rparr> = ''abcdefghij'' \<and>
   totalPages ''abcdefghijklm'' 5 = 3 \<and>
   hasNextPage ''abcdefghijklm'' 5 \<lparr>currentPage = 2\<rparr> \<and>
   length (displayedItems ''abcdefghijklm'' 5 \<lparr>currentPage = 3\<rparr>) = 13 \<and>
   loadMore ''abcdefghijklm'' 5 \<lparr>currentPage = 3\<rparr> = \<lparr>currentPage = 3\<rparr>"
  using pagination_arithmetic [of 5 "\<lparr>currentPage = 2\<rparr>" "''abcdefghijklm''"]
  by (simp add: totalPages_div)

section \<open>Facts about identifiers\<close>

lemma digitChar_eq_iff: "d < 10 \<Longrightarrow> d' < 10 \<Longrightarrow> digitChar d = digitChar d' \<longleftrightarrow> d = d'"
  by (simp add: digitChar_def char_of_eq_iff take_bit_eq_mod)

lemma digitChar_not_dash: "d < 10 \<Longrightarrow> digitChar d \<noteq> CHR ''-''"
  by (simp add: digitChar_def char_of_eq_iff take_bit_eq_mod)

lemma numberToString_not_Nil: "numberToString n \<noteq> []"
  by (subst numberToString.simps) simp

lemma numberToString_no_dash: "CHR ''-'' \<notin> set (numberToString n)"
proof (induction n rule: numberToString.induct)
  case (1 n)
  show ?case
  proof (cases "n < 10")
    case True
    then show ?thesis
      using digitChar_not_dash [of n] by (subst numberToString.simps) auto
  next
    case False
    have "n mod 10 < 10" by simp
    then have "digitChar (n mod 10) \<noteq> CHR ''-''" by (rule digitChar_not_dash)
    then show ?thesis
      using False "1.IH" by (subst numberToString.simps) auto
  qed
qed

lemma numberToString_inj: "numberToString m = numberToString n \<Longrightarrow> m = n"
proof (induction m arbitrary: n rule: numberToString.induct)
  case (1 m)
  show ?case
  proof (cases "m < 10")
    case m: True
    show ?thesis
    proof (cases "n < 10")
      case True
      then show ?thesis
        using m "1.prems" digitChar_eq_iff [of m n]
        by (simp add: numberToString.simps [of m] numberToString.simps [of n])
    next
      case False
      then show ?thesis
        using m "1.prems" numberToString_not_Nil [of "n div 10"]
        by (simp add: numberToString.simps [of m] numberToString.simps [of n])
    qed
  next
    case m: False
    show ?thesis
    proof (cases "n < 10")
      case True
      then show ?thesis
        using m "1.prems" numberToString_not_Nil [of "m div 10"]
        by (simp add: numberToString.simps [of m] numberToString.simps [of n])
    next
      case False
      have eq: "numberToString (m div 10) @ [digitChar (m mod 10)] =
                numberToString (n div 10) @ [digitChar (n mod 10)]"
        using m False "1.prems"
        by (simp add: numberToString.simps [of m] numberToString.simps [of n])
      then have a: "numberToString (m div 10) = numberToString (n div 10)"
        and b: "digitChar (m mod 10) = digitChar (n mod 10)" by simp_all
      have "m div 10 = n div 10" using "1.IH" m a by simp
      moreover have "m mod 10 = n mod 10"
        using b digitChar_eq_iff [of "m mod 10" "n mod 10"] by simp
      ultimately show ?thesis by (metis div_mult_mod_eq)
    qed
  qed
qed

lemma split_at_first:
  "x \<notin> set xs \<Longrightarrow> x \<notin> set xs' \<Longrightarrow>
   xs @ x # ys = xs' @ x # ys' \<longleftrightarrow> xs = xs' \<and> ys = ys'"
proof (induction xs arbitrary: xs')
  case Nil
  then show ?case by (cases xs') auto
next
  case (Cons a xs)
  then show ?case by (cases xs') auto
qed

lemma generateId_eq_iff:
  "generateId e = generateId e' \<longleftrightarrow> dateNow e = dateNow e' \<and> randomSuffix e = randomSuffix e'"
proof -
  have "numberToString (dateNow e) @ CHR ''-'' # randomSuffix e =
        numberToString (dateNow e') @ CHR ''-'' # randomSuffix e' \<longleftrightarrow>
        numberToString (dateNow e) = numberToString (dateNow e') \<and> randomSuffix e = randomSuffix e'"
    by (rule split_at_first) (rule numberToString_no_dash)+
  then show ?thesis
    using numberToString_inj by (auto simp: generateId_def)
qed

section \<open>Facts about the to-do container\<close>

text \<open>
  Claim C3, as the spec states it: a create with non-blank text prepends exactly one
  record whose identifier differs from the identifier of every existing record. The
  identifier is the clock's milliseconds and a random suffix, and the existing records
  are not consulted: two creates that read the same millisecond and draw the same
  suffix produce the same identifier.
\<close>

theorem addTodo_fresh_id_counterexample:
  "trim ''second'' \<noteq> [] \<and>
   idT (hd (addTodo env_monday ''second'' (addTodo env_monday ''first'' [])))
     \<in> set (map idT (addTodo env_monday ''first'' []))"
  by (simp add: addTodo_def Let_def trim_def isWhiteSpace_def)

text \<open>
  Claim C3, amended: create trims its input; when the trimmed text is empty the list is
  unchanged; otherwise exactly one record is prepended, with the trimmed text,
  \<open>completed = false\<close>, both timestamps set to now, and the identifier
  \<open>Date.now()\<close>, a hyphen and the random suffix, which differs from the identifier of
  every existing record that was generated at another millisecond or with another
  suffix.
\<close>

theorem addTodo_prepends_one_record:
  "(trim txt = [] \<longrightarrow> addTodo e txt prev = prev) \<and>
   (trim txt \<noteq> [] \<longrightarrow>
      addTodo e txt prev =
        \<lparr>idT = generateId e, textT = trim txt, completed = False,
         createdAt = isoNow e, updatedAt = isoNow e\<rparr> # prev \<and>
      length (addTodo e txt prev) = Suc (length prev) \<and>
      (\<forall>r \<in> set prev. \<forall>e'.
         idT r = generateId e' \<and>
         (dateNow e' \<noteq> dateNow e \<or> randomSuffix e' \<noteq> randomSuffix e) \<longrightarrow>
         idT r \<noteq> idT (hd (addTodo e txt prev))))"
  by (auto simp: addTodo_def Let_def generateId_eq_iff)

theorem addTodo_witness:
  "trim ''  Buy milk '' \<noteq> [] \<and>
   addTodo env_later ''  Buy milk '' (addTodo env_monday ''first'' []) =
     [\<lparr>idT = ''1737360000001-k3j9x0a1b'', textT = ''Buy milk'', completed = False,
        createdAt = ''2025-01-20T08:00:00.001Z'', updatedAt = ''2025-01-20T08:00:00.001Z''\<rparr>,
      \<lparr>idT = ''1737360000000-k3j9x0a1b'', textT = ''first'', completed = False,
        createdAt = ''2025-01-20T08:00:00.000Z'', updatedAt = ''2025-01-20T08:00:00.000Z''\<rparr>] \<and>
   trim ''   '' = [] \<and>
   addTodo env_later ''   '' [todo_milk] = [todo_milk]"
proof -
  have a: "trim ''  Buy milk '' = ''Buy milk''" and b: "trim ''   '' = []"
    by (simp_all add: trim_def isWhiteSpace_def)
  have c: "addTodo env_monday ''first'' [] =
     [\<lparr>idT = ''1737360000000-k3j9x0a1b'', textT = ''first'', completed = False,
        createdAt = ''2025-01-20T08:00:00.000Z'', updatedAt = ''2025-01-20T08:00:00.000Z''\<rparr>]"
    by (simp add: addTodo_def Let_def trim_def isWhiteSpace_def generateId_def env_monday_def
        numberToString.simps digitChar_def char_of_eq_iff)
  have d: "generateId env_later = ''1737360000001-k3j9x0a1b''"
    by (simp add: generateId_def env_later_def numberToString.simps digitChar_def char_of_eq_iff)
  have e: "isoNow env_later = ''2025-01-20T08:00:00.001Z''" by (simp add: env_later_def)
  show ?thesis
    using addTodo_prepends_one_record [of "''  Buy milk ''" env_later "addTodo env_monday ''first'' []"]
      addTodo_prepends_one_record [of "''   ''" env_later "[todo_milk]"]
    by (simp add: a b c d e)
qed

text \<open>
  Claim C5: after \<open>clearCompleted\<close> no record is completed; the records that were not
  completed are all still there, unchanged and in their original order: the result and
  the original list have the same not-completed records in the same order, and the
  result is a subsequence of the original list.
\<close>

theorem clearCompleted_keeps_active:
  "(\<forall>t \<in> set (clearCompleted xs). \<not> completed t) \<and>
   filter (\<lambda>t. \<not> completed t) (clearCompleted xs) = filter (\<lambda>t. \<not> completed t) xs \<and>
   (\<forall>t \<in> set xs. \<not> completed t \<longrightarrow> t \<in> set (clearCompleted xs)) \<and>
   subseq (clearCompleted xs) xs"
  by (auto simp: clearCompleted_def)

theorem clearCompleted_witness:
  "clearCompleted [todo_milk, todo_mail, todo_walk] = [todo_milk, todo_walk] \<and>
   \<not> completed todo_milk \<and> \<not> completed todo_walk \<and>
   subseq [todo_milk, todo_walk] [todo_milk, todo_mail, todo_walk]"
  using clearCompleted_keeps_active [of "[todo_milk, todo_mail, todo_walk]"]
  by (simp add: clearCompleted_def todo_milk_def todo_mail_def todo_walk_def)

section \<open>Facts about strings\<close>

lemma char_of_numeral_eval:
  "char_of (numeral k :: nat) =
     Char (odd (numeral k :: nat)) (odd (numeral k div 2 :: nat))
          (odd (numeral k div 4 :: nat)) (odd (numeral k div 8 :: nat))
          (odd (numeral k div 16 :: nat)) (odd (numeral k div 32 :: nat))
          (odd (numeral k div 64 :: nat)) (odd (numeral k div 128 :: nat))"
  by (simp add: char_of_def bit_iff_odd)


section \<open>Facts about the filtered view and the counts\<close>

lemma filter_selector:
  "(if flt = FilterActive then \<not> completed t else if flt = FilterCompleted then completed t else True)
     = passes_selector flt t"
  by (cases flt) (simp_all add: passes_selector_def)

text \<open>
  Claim C6: the filtered view is the source list filtered, in order, by the
  conjunction of the selector (active: not completed; completed: completed; all: every
  record) and of the case-insensitive containment of the search query in the text; its
  records are exactly those of the list that pass both. The counts are taken from the
  whole list, which is their only argument: the total is its length, the other two
  count its not-completed and its completed records, and they add up to the total.
\<close>

theorem filteredTodos_and_counts:
  "filteredTodos ts flt q =
     filter (\<lambda>t. passes_selector flt t \<and> contains_ci (textT t) q) ts \<and>
   set (filteredTodos ts flt q) =
     {t. t \<in> set ts \<and> passes_selector flt t \<and> contains_ci (textT t) q} \<and>
   subseq (filteredTodos ts flt q) ts \<and>
   total (todoStats ts) = length ts \<and>
   active (todoStats ts) = length (filter (\<lambda>t. \<not> completed t) ts) \<and>
   completedS (todoStats ts) = length (filter (\<lambda>t. completed t) ts) \<and>
   total (todoStats ts) = active (todoStats ts) + completedS (todoStats ts)"
proof -
  have f: "filteredTodos ts flt q =
     filter (\<lambda>t. passes_selector flt t \<and> contains_ci (textT t) q) ts"
    by (simp add: filteredTodos_def filter_selector contains_ci_def includes_str_def conj_commute)
  have s: "length ts =
      length (filter (\<lambda>t. \<not> completed t) ts) + length (filter (\<lambda>t. completed t) ts)"
    using sum_length_filter_compl [of "\<lambda>t. completed t" ts] by simp
  show ?thesis
    using s by (auto simp: f todoStats_def)
qed

theorem filteredTodos_witness:
  "filteredTodos [todo_milk, todo_mail, todo_walk] FilterActive ''MI'' = [todo_milk] \<and>
   filteredTodos [todo_milk, todo_mail, todo_walk] FilterAll ''m'' = [todo_milk, todo_mail] \<and>
   filteredTodos [todo_milk, todo_mail, todo_walk] FilterCompleted '''' = [todo_mail] \<and>
   todoStats [todo_milk, todo_mail, todo_walk] = \<lparr>total = 3, active = 2, completedS = 1\<rparr>"
proof -
  have a: "contains_ci (textT todo_milk) ''MI''" "\<not> contains_ci (textT todo_walk) ''MI''"
     "contains_ci (textT todo_milk) ''m''" "contains_ci (textT todo_mail) ''m''"
     "\<not> contains_ci (textT todo_walk) ''m''"
    by (simp_all add: contains_ci_def toLowerCase_def lowerChar_def char_of_numeral_eval
        sublist_code prefix_code todo_milk_def todo_mail_def todo_walk_def)
  have b: "passes_selector FilterActive todo_milk" "\<not> passes_selector FilterActive todo_mail"
     "passes_selector FilterActive todo_walk" "passes_selector FilterCompleted todo_mail"
     "\<not> passes_selector FilterCompleted todo_milk" "\<not> passes_selector FilterCompleted todo_walk"
     "\<And>t. passes_selector FilterAll t" "\<And>s. contains_ci s ''''"
    by (simp_all add: passes_selector_def contains_ci_def toLowerCase_def
        todo_milk_def todo_mail_def todo_walk_def)
  have c: "todoStats [todo_milk, todo_mail, todo_walk] = \<lparr>total = 3, active = 2, completedS = 1\<rparr>"
    by (simp add: todoStats_def todo_milk_def todo_mail_def todo_walk_def)
  show ?thesis
    using
      filteredTodos_and_counts [of "[todo_milk, todo_mail, todo_walk]" FilterActive "''MI''",
        THEN conjunct1]
      filteredTodos_and_counts [of "[todo_milk, todo_mail, todo_walk]" FilterAll "''m''",
        THEN conjunct1]
      filteredTodos_and_counts [of "[todo_milk, todo_mail, todo_walk]" FilterCompleted "''''",
        THEN conjunct1]
    by (simp add: a b c)
qed

section \<open>Facts about blank input and missing identifiers\<close>

text \<open>
  Claim C7, as the spec states it, makes every identifier-keyed operation on a missing
  identifier a silent no-op, never an error. The note container's update validates its
  content before it looks for the identifier: with blank content it throws, whether a
  note has the identifier or not.
\<close>

theorem missing_id_counterexample:
  "''9-z'' \<notin> set (map idN [note_monday]) \<and>
   updateNote ''2025-01-21T00:00:00.000Z'' ''9-z'' ''   '' [note_monday]
     = (Inl (Error ''Konten catatan tidak boleh kosong''), [note_monday])"
  by (simp add: updateNote_def Let_def trim_def isWhiteSpace_def note_monday_def)

lemma map_if_absent_todo:
  "i \<notin> set (map idT ts) \<Longrightarrow> map (\<lambda>t. if idT t = i then f t else t) ts = ts"
  by (induction ts) auto

lemma map_if_absent_note:
  "i \<notin> set (map idN ns) \<Longrightarrow> map (\<lambda>n. if idN n = i then f n else n) ns = ns"
  by (induction ns) auto

lemma filter_absent_todo: "i \<notin> set (map idT ts) \<Longrightarrow> filter (\<lambda>t. idT t \<noteq> i) ts = ts"
  by (induction ts) auto

lemma filter_absent_note: "i \<notin> set (map idN ns) \<Longrightarrow> filter (\<lambda>n. idN n \<noteq> i) ns = ns"
  by (induction ns) auto

text \<open>
  Claim C7, amended: on blank (empty or whitespace-only) input the task container's
  create leaves the list unchanged and signals nothing, the note container's create
  and update throw an error and leave the note list unchanged, the update doing so for
  every identifier, present or missing. On a missing identifier toggle, edit and
  delete of a task, and delete and markConverted of a note, are silent no-ops, and so
  is the update of a note when its content is not blank.
\<close>

theorem blank_input_and_missing_id_policy:
  "(trim txt = [] \<longrightarrow>
      addTodo e txt ts = ts \<and>
      addNote e txt ns = (Inl (Error ''Konten catatan tidak boleh kosong''), ns) \<and>
      updateNote now i txt ns = (Inl (Error ''Konten catatan tidak boleh kosong''), ns)) \<and>
   (i \<notin> set (map idT ts) \<longrightarrow>
      toggleTodo now i ts = ts \<and> editTodo now i txt ts = ts \<and>
      deleteTodo i ts = ts) \<and>
   (i \<notin> set (map idN ns) \<longrightarrow>
      deleteNote i ns = ns \<and> markAsConverted now i ns = ns \<and>
      (trim txt \<noteq> [] \<longrightarrow> updateNote now i txt ns = (Inr (), ns)))"
proof (intro conjI impI)
  assume "trim txt = []"
  then show "addTodo e txt ts = ts"
    and "addNote e txt ns = (Inl (Error ''Konten catatan tidak boleh kosong''), ns)"
    and "updateNote now i txt ns = (Inl (Error ''Konten catatan tidak boleh kosong''), ns)"
    by (simp_all add: addTodo_def addNote_def updateNote_def)
next
  assume a: "i \<notin> set (map idT ts)"
  show "toggleTodo now i ts = ts"
    unfolding toggleTodo_def using a by (rule map_if_absent_todo)
  show "editTodo now i txt ts = ts"
    using map_if_absent_todo [OF a] by (simp add: editTodo_def Let_def)
  show "deleteTodo i ts = ts"
    unfolding deleteTodo_def using a by (rule filter_absent_todo)
next
  assume a: "i \<notin> set (map idN ns)"
  show "deleteNote i ns = ns"
    unfolding deleteNote_def using a by (rule filter_absent_note)
  show "markAsConverted now i ns = ns"
    unfolding markAsConverted_def using a by (rule map_if_absent_note)
  assume "trim txt \<noteq> []"
  then show "updateNote now i txt ns = (Inr (), ns)"
    using map_if_absent_note [OF a] by (simp add: updateNote_def Let_def)
qed

theorem blank_input_witness:
  "trim ''   '' = [] \<and>
   addTodo env_monday ''   '' [todo_milk] = [todo_milk] \<and>
   addNote env_monday ''   '' [note_monday] =
     (Inl (Error ''Konten catatan tidak boleh kosong''), [note_monday]) \<and>
   ''9-z'' \<notin> set (map idT [todo_milk]) \<and>
   toggleTodo ''n'' ''9-z'' [todo_milk] = [todo_milk] \<and>
   deleteTodo ''9-z'' [todo_milk] = [todo_milk] \<and>
   ''9-z'' \<notin> set (map idN [note_monday]) \<and>
   trim '' x '' \<noteq> [] \<and>
   updateNote ''n'' ''9-z'' '' x '' [note_monday] = (Inr (), [note_monday])"
proof -
  have a: "trim ''   '' = []" "trim '' x '' \<noteq> []"
    by (simp_all add: trim_def isWhiteSpace_def)
  have b: "''9-z'' \<notin> set (map idT [todo_milk])" "''9-z'' \<notin> set (map idN [note_monday])"
    by (simp_all add: todo_milk_def note_monday_def)
  show ?thesis
    using blank_input_and_missing_id_policy [of "''   ''" env_monday "[todo_milk]" "[note_monday]" "''n''" "''9-z''"]
      blank_input_and_missing_id_policy [of "'' x ''" env_monday "[todo_milk]" "[note_monday]" "''n''" "''9-z''"]
      a b
    by simp
qed

section \<open>Facts about the note search\<close>

lemma isWhiteSpace_lowerChar: "isWhiteSpace (lowerChar c) = isWhiteSpace c"
  by (auto simp: isWhiteSpace_def lowerChar_def Let_def)

lemma trim_toLowerCase: "trim (toLowerCase s) = toLowerCase (trim s)"
proof -
  have c: "isWhiteSpace \<circ> lowerChar = isWhiteSpace"
    by (rule ext) (simp add: isWhiteSpace_lowerChar)
  show ?thesis
    by (simp add: trim_def toLowerCase_def dropWhile_map rev_map c)
qed

lemma lowerChar_digit: "isDigit c \<Longrightarrow> lowerChar c = c"
  by (simp add: isDigit_def lowerChar_def Let_def)

lemma toLowerCase_digits: "list_all isDigit s \<Longrightarrow> toLowerCase s = s"
  by (induction s) (simp_all add: toLowerCase_def lowerChar_digit)

lemma toLowerCase_dash: "toLowerCase ''-'' = ''-''"
  by (simp add: toLowerCase_def lowerChar_def)

lemma toLowerCase_append: "toLowerCase (a @ b) = toLowerCase a @ toLowerCase b"
  by (simp add: toLowerCase_def)

lemma parseDate_shape:
  assumes "parseDate t \<noteq> None"
  shows "length t = 19" and "list_all isDigit (take 4 t)" and "take 1 (drop 4 t) = ''-''"
    and "list_all isDigit (take 2 (drop 5 t))" and "take 1 (drop 7 t) = ''-''"
    and "list_all isDigit (take 2 (drop 8 t))"
proof -
  have c: "length t = 19 \<and> list_all isDigit (take 4 t) \<and> take 1 (drop 4 t) = ''-'' \<and>
      list_all isDigit (take 2 (drop 5 t)) \<and> take 1 (drop 7 t) = ''-'' \<and>
      list_all isDigit (take 2 (drop 8 t)) \<and> drop 10 t = ''T00:00:00''"
  proof (rule ccontr)
    assume "\<not> ?thesis"
    then have "parseDate t = None" unfolding parseDate_def Let_def by (rule if_not_P)
    with assms show False by simp
  qed
  from c show "length t = 19" by (rule conjunct1)
  from c show "list_all isDigit (take 4 t)" by blast
  from c show "take 1 (drop 4 t) = ''-''" by blast
  from c show "list_all isDigit (take 2 (drop 5 t))" by blast
  from c show "take 1 (drop 7 t) = ''-''" by blast
  from c show "list_all isDigit (take 2 (drop 8 t))" by blast
qed

lemma toLowerCase_date:
  assumes "isDateText s"
  shows "toLowerCase s = s"
proof -
  let ?t = "s @ ''T00:00:00''"
  have p: "parseDate ?t \<noteq> None" using assms by (simp add: isDateText_def)
  have len: "length s = 10" using parseDate_shape(1) [OF p] by simp
  have a: "list_all isDigit (take 4 s)" using parseDate_shape(2) [OF p] len by simp
  have b: "take 1 (drop 4 s) = ''-''" using parseDate_shape(3) [OF p] len by simp
  have c: "list_all isDigit (take 2 (drop 5 s))" using parseDate_shape(4) [OF p] len by simp
  have d: "take 1 (drop 7 s) = ''-''" using parseDate_shape(5) [OF p] len by simp
  have e: "list_all isDigit (take 2 (drop 8 s))" using parseDate_shape(6) [OF p] len by simp
  have "s = take 4 s @ drop 4 s" by simp
  also have "drop 4 s = take 1 (drop 4 s) @ drop 5 s"
    using append_take_drop_id [of 1 "drop 4 s"] by simp
  also have "drop 5 s = take 2 (drop 5 s) @ drop 7 s"
    using append_take_drop_id [of 2 "drop 5 s"] by simp
  also have "drop 7 s = take 1 (drop 7 s) @ drop 8 s"
    using append_take_drop_id [of 1 "drop 7 s"] by simp
  also have "drop 8 s = take 2 (drop 8 s)" using len by simp
  finally have s: "s = take 4 s @ ''-'' @ take 2 (drop 5 s) @ ''-'' @ take 2 (drop 8 s)"
    using b d by simp
  have "toLowerCase (take 4 s @ ''-'' @ take 2 (drop 5 s) @ ''-'' @ take 2 (drop 8 s)) =
        take 4 s @ ''-'' @ take 2 (drop 5 s) @ ''-'' @ take 2 (drop 8 s)"
    by (simp only: toLowerCase_append toLowerCase_dash toLowerCase_digits [OF a]
        toLowerCase_digits [OF c] toLowerCase_digits [OF e])
  then show ?thesis using s by simp
qed

lemma sublist_trim: "sublist (trim s) s"
proof -
  let ?t = "dropWhile isWhiteSpace s"
  have "rev (dropWhile isWhiteSpace (rev ?t)) @ rev (takeWhile isWhiteSpace (rev ?t)) =
        rev (takeWhile isWhiteSpace (rev ?t) @ dropWhile isWhiteSpace (rev ?t))"
    by (simp only: rev_append)
  also have "\<dots> = ?t" by (simp only: takeWhile_dropWhile_id rev_rev_ident)
  finally have "?t = trim s @ rev (takeWhile isWhiteSpace (rev ?t))"
    by (simp only: trim_def)
  then have "prefix (trim s) ?t" by (metis prefixI)
  then have "sublist (trim s) ?t" by (rule prefix_imp_sublist)
  moreover have "sublist ?t s" by (rule suffix_imp_sublist) (rule suffix_dropWhile)
  ultimately show ?thesis by (rule sublist_order.order.trans)
qed

lemma sublist_toLowerCase: "sublist a b \<Longrightarrow> sublist (toLowerCase a) (toLowerCase b)"
  unfolding toLowerCase_def by (rule map_mono_sublist)

lemma contains_ci_trim: "contains_ci s q \<Longrightarrow> contains_ci s (trim q)"
proof -
  assume "contains_ci s q"
  then have a: "sublist (toLowerCase q) (toLowerCase s)" by (simp add: contains_ci_def)
  have "sublist (toLowerCase (trim q)) (toLowerCase q)"
    by (rule sublist_toLowerCase) (rule sublist_trim)
  then have "sublist (toLowerCase (trim q)) (toLowerCase s)"
    using a by (rule sublist_order.order.trans)
  then show ?thesis by (simp add: contains_ci_def)
qed

lemma filterE_total:
  "(\<And>x. x \<in> set xs \<Longrightarrow> p x = Inr (f x)) \<Longrightarrow> filterE p xs = Inr (filter f xs)"
  by (induction xs) simp_all

lemma trim_Nil_toLowerCase: "trim (toLowerCase q) = [] \<longleftrightarrow> trim q = []"
  unfolding trim_toLowerCase by (simp add: toLowerCase_def)

lemma contains_ci_Nil: "contains_ci s []"
  by (simp add: contains_ci_def toLowerCase_def)

lemma isDigit_digitChar: "d < 10 \<Longrightarrow> isDigit (digitChar d)"
  by (simp add: isDigit_def digitChar_def)

lemma of_char_digitChar: "d < 10 \<Longrightarrow> (of_char (digitChar d) :: nat) = 48 + d"
  by (simp add: digitChar_def)

lemma digits_numberToString: "list_all isDigit (numberToString n)"
proof (induction n rule: numberToString.induct)
  case (1 n)
  show ?case
  proof (cases "n < 10")
    case True
    then show ?thesis by (simp add: numberToString.simps [of n] isDigit_digitChar)
  next
    case False
    then show ?thesis
      using "1.IH" by (simp add: numberToString.simps [of n] isDigit_digitChar)
  qed
qed

lemma digitsValue_snoc: "digitsValue (s @ [c]) = 10 * digitsValue s + (of_char c - 48)"
  by (simp add: digitsValue_def)

lemma digitsValue_numberToString: "digitsValue (numberToString n) = n"
proof (induction n rule: numberToString.induct)
  case (1 n)
  show ?case
  proof (cases "n < 10")
    case True
    then show ?thesis
      by (simp add: numberToString.simps [of n] digitsValue_def of_char_digitChar)
  next
    case False
    then have "digitsValue (numberToString n) = 10 * (n div 10) + n mod 10"
      using "1.IH" by (simp add: numberToString.simps [of n] digitsValue_snoc of_char_digitChar)
    then show ?thesis by simp
  qed
qed

lemma length_numberToString_1: "n < 10 \<Longrightarrow> length (numberToString n) = 1"
  by (simp add: numberToString.simps [of n])

lemma length_numberToString_2: "10 \<le> n \<Longrightarrow> n < 100 \<Longrightarrow> length (numberToString n) = 2"
  by (simp add: numberToString.simps [of n] length_numberToString_1)

lemma length_numberToString_3: "100 \<le> n \<Longrightarrow> n < 1000 \<Longrightarrow> length (numberToString n) = 3"
  by (simp add: numberToString.simps [of n] length_numberToString_2)

lemma length_numberToString_4: "1000 \<le> n \<Longrightarrow> n < 10000 \<Longrightarrow> length (numberToString n) = 4"
  by (simp add: numberToString.simps [of n] length_numberToString_3)

lemma digitsValue_zero_Cons: "digitsValue (CHR ''0'' # s) = digitsValue s"
  by (simp add: digitsValue_def)

lemma padStart2_two_digits:
  assumes "n < 100"
  shows "length (padStart2 (numberToString n)) = 2"
    and "list_all isDigit (padStart2 (numberToString n))"
    and "digitsValue (padStart2 (numberToString n)) = n"
proof -
  have d0: "isDigit CHR ''0''" by (simp add: isDigit_def)
  show "length (padStart2 (numberToString n)) = 2"
    using assms length_numberToString_1 [of n] length_numberToString_2 [of n]
    by (cases "n < 10") (simp_all add: padStart2_def)
  show "list_all isDigit (padStart2 (numberToString n))"
    using digits_numberToString [of n] d0 by (auto simp: padStart2_def list_all_iff)
  show "digitsValue (padStart2 (numberToString n)) = n"
    using assms length_numberToString_1 [of n] length_numberToString_2 [of n]
      digitsValue_numberToString [of n]
    by (cases "n < 10") (simp_all add: padStart2_def digitsValue_zero_Cons)
qed

text \<open>
  The dates the note container writes are date texts: for a clock whose local date is
  in the years 1000 to 9999, \<open>getTodayDate\<close> is a text the search can read.
\<close>

lemma getTodayDate_dateText:
  assumes y: "1000 \<le> fullYear e" "fullYear e < 10000"
    and m: "month e < 12"
    and d: "1 \<le> dayOfMonth e" "dayOfMonth e \<le> 31"
  shows "isDateText (getTodayDate e)"
proof -
  define ys where "ys = numberToString (fullYear e)"
  define ms where "ms = padStart2 (numberToString (month e + 1))"
  define ds where "ds = padStart2 (numberToString (dayOfMonth e))"
  have ly: "length ys = 4" using y by (simp add: ys_def length_numberToString_4)
  have lm: "length ms = 2" using m by (simp add: ms_def padStart2_two_digits)
  have ld: "length ds = 2" using d by (simp add: ds_def padStart2_two_digits)
  have gy: "list_all isDigit ys" by (simp add: ys_def digits_numberToString)
  have gm: "list_all isDigit ms" using m by (simp add: ms_def padStart2_two_digits)
  have gd: "list_all isDigit ds" using d by (simp add: ds_def padStart2_two_digits)
  have vy: "digitsValue ys = fullYear e" by (simp add: ys_def digitsValue_numberToString)
  have vm: "digitsValue ms = month e + 1" using m by (simp add: ms_def padStart2_two_digits)
  have vd: "digitsValue ds = dayOfMonth e" using d by (simp add: ds_def padStart2_two_digits)
  have t: "getTodayDate e @ ''T00:00:00'' = ys @ ''-'' @ ms @ ''-'' @ ds @ ''T00:00:00''"
    by (simp add: getTodayDate_def Let_def ys_def ms_def ds_def)
  have "parseDate (ys @ ''-'' @ ms @ ''-'' @ ds @ ''T00:00:00'') =
          Some (fullYear e, month e + 1, dayOfMonth e)"
    using m d by (simp add: parseDate_def Let_def ly lm ld gy gm gd vy vm vd)
  then show ?thesis by (simp add: isDateText_def t)
qed

text \<open>
  The day of the week that \<open>getDay\<close> computes from the day count since 1970 is the
  day of the week of the calendar date.
\<close>

lemma div_shift: "(x - k * c) div k = x div k - c" if "k \<noteq> 0" for x k c :: int
  using that div_mult_self2 [of k x "- c"] by simp

lemma DayFromYear_leapCount: "DayFromYear y = 365 * (y - 1970) + leapCount (y - 1) - 477"
proof -
  have a: "(y - 1969) div 4 = (y - 1) div 4 - 492"
    using div_shift [of 4 "y - 1" 492] by simp
  have b: "(y - 1901) div 100 = (y - 1) div 100 - 19"
    using div_shift [of 100 "y - 1" 19] by simp
  have c: "(y - 1601) div 400 = (y - 1) div 400 - 4"
    using div_shift [of 400 "y - 1" 4] by simp
  show ?thesis by (simp add: DayFromYear_def leapCount_def a b c)
qed

lemma div_step:
  assumes "0 < (k::int)"
  shows "x div k = (x - 1) div k + (if x mod k = 0 then 1 else 0)"
proof (cases "x mod k = 0")
  case True
  have "x = k * (x div k) + x mod k" by simp
  then have "x - 1 = k * (x div k - 1) + (k - 1)" using True by (simp add: algebra_simps)
  moreover have "0 \<le> k - 1" "k - 1 < k" using assms by simp_all
  ultimately have "(x - 1) div k = x div k - 1" by (rule int_div_pos_eq)
  then show ?thesis using True by simp
next
  case False
  have p: "0 \<le> x mod k" using assms by simp
  have q: "x mod k < k" using assms by simp
  have "x = k * (x div k) + x mod k" by simp
  then have "x - 1 = k * (x div k) + (x mod k - 1)" by simp
  moreover have "0 \<le> x mod k - 1" "x mod k - 1 < k" using False p q by simp_all
  ultimately have "(x - 1) div k = x div k" by (rule int_div_pos_eq)
  then show ?thesis using False by simp
qed

lemma leapCount_step: "leapCount (int y) = leapCount (int y - 1) + InLeapYear y"
proof -
  have a: "int y div 4 = (int y - 1) div 4 + (if int y mod 4 = 0 then 1 else 0)"
    by (rule div_step) simp
  have b: "int y div 100 = (int y - 1) div 100 + (if int y mod 100 = 0 then 1 else 0)"
    by (rule div_step) simp
  have c: "int y div 400 = (int y - 1) div 400 + (if int y mod 400 = 0 then 1 else 0)"
    by (rule div_step) simp
  have d: "int y mod 100 = 0" if "int y mod 400 = 0"
    using mod_mod_cancel [of 100 400 "int y"] that by simp
  have e: "int y mod 4 = 0" if "int y mod 100 = 0"
    using mod_mod_cancel [of 4 100 "int y"] that by simp
  have m4: "(y mod 4 = 0) = (int y mod 4 = 0)"
  proof -
    have "(y mod 4 = 0) = (int (y mod 4) = 0)" by simp
    also have "int (y mod 4) = int y mod 4" by (simp add: zmod_int)
    finally show ?thesis .
  qed
  have m100: "(y mod 100 = 0) = (int y mod 100 = 0)"
  proof -
    have "(y mod 100 = 0) = (int (y mod 100) = 0)" by simp
    also have "int (y mod 100) = int y mod 100" by (simp add: zmod_int)
    finally show ?thesis .
  qed
  have m400: "(y mod 400 = 0) = (int y mod 400 = 0)"
  proof -
    have "(y mod 400 = 0) = (int (y mod 400) = 0)" by simp
    also have "int (y mod 400) = int y mod 400" by (simp add: zmod_int)
    finally show ?thesis .
  qed
  show ?thesis
  proof (cases "int y mod 4 = 0")
    case False
    then have h: "int y mod 100 \<noteq> 0" using e by auto
    then have "int y mod 400 \<noteq> 0" using d by auto
    with h have "int y mod 100 \<noteq> 0" "int y mod 400 \<noteq> 0" by simp_all
    then show ?thesis
      using False by (simp add: leapCount_def InLeapYear_def m4 a b c)
  next
    case four: True
    show ?thesis
    proof (cases "int y mod 100 = 0")
      case False
      then have "int y mod 400 \<noteq> 0" using d by auto
      then show ?thesis
        using four False by (simp add: leapCount_def InLeapYear_def m4 m100 a b c)
    next
      case True
      then show ?thesis
        using four by (cases "int y mod 400 = 0") (simp_all add: leapCount_def InLeapYear_def m4 m100 m400 a b c)
    qed
  qed
qed


lemma Day_MakeDate: "Day (MakeDate day 0) = day"
  by (simp add: Day_def MakeDate_def msPerDay_def)

lemma mod7_early:
  assumes "(c - k) mod 7 = 0"
  shows "nat ((365 * (Y - 1970) + A - 477 + c + D - 1 + 4) mod 7) =
         nat ((Y - 1 + A + k + D) mod (7::int))"
proof -
  obtain q where "c - k = 7 * q" using assms by (auto simp: mod_eq_0_iff_dvd)
  then have c: "c = k + 7 * q" by simp
  have "365 * (Y - 1970) + A - 477 + c + D - 1 + 4 =
      (Y - 1 + A + k + D) + 7 * (52 * Y - 102789 + q)"
    unfolding c by (simp add: algebra_simps)
  then show ?thesis by (simp only: mod_mult_self2)
qed

lemma mod7_late:
  assumes "(c - k - 1) mod 7 = 0"
  shows "nat ((365 * (Y - 1970) + A - 477 + (c + l) + D - 1 + 4) mod 7) =
         nat ((Y + (A + l) + k + D) mod (7::int))"
proof -
  obtain q where "c - k - 1 = 7 * q" using assms by (auto simp: mod_eq_0_iff_dvd)
  then have c: "c = k + 1 + 7 * q" by simp
  have "365 * (Y - 1970) + A - 477 + (c + l) + D - 1 + 4 =
      (Y + (A + l) + k + D) + 7 * (52 * Y - 102789 + q)"
    unfolding c by (simp add: algebra_simps)
  then show ?thesis by (simp only: mod_mult_self2)
qed

lemma weekday_agrees:
  assumes "1 \<le> m" and "m \<le> 12"
  shows "nat ((MakeDay y m d + 4) mod 7) = weekdayOfDate y m d"
proof -
  have md: "MakeDay y m d =
      365 * (int y - 1970) + leapCount (int y - 1) - 477 + monthStart y m + int d - 1"
    by (simp add: MakeDay_def DayFromYear_leapCount)
  have "m = 1 \<or> m = 2 \<or> m = 3 \<or> m = 4 \<or> m = 5 \<or> m = 6 \<or> m = 7 \<or> m = 8 \<or>
        m = 9 \<or> m = 10 \<or> m = 11 \<or> m = 12"
    using assms by presburger
  then consider "m = 1" | "m = 2" | "m = 3" | "m = 4" | "m = 5" | "m = 6" | "m = 7" | "m = 8"
    | "m = 9" | "m = 10" | "m = 11" | "m = 12"
    by fastforce
  then show ?thesis
  proof cases
    case 1
    have "nat ((MakeDay y m d + 4) mod 7) =
        nat ((365 * (int y - 1970) + leapCount (int y - 1) - 477 + 0 + int d - 1 + 4) mod 7)"
      unfolding md by (simp add: monthStart_def 1)
    also have "\<dots> = nat ((int y - 1 + leapCount (int y - 1) + 0 + int d) mod 7)"
      by (rule mod7_early) simp
    also have "\<dots> = weekdayOfDate y m d"
      by (simp add: weekdayOfDate_def Let_def monthKey_def 1)
    finally show ?thesis .
  next
    case 2
    have "nat ((MakeDay y m d + 4) mod 7) =
        nat ((365 * (int y - 1970) + leapCount (int y - 1) - 477 + 31 + int d - 1 + 4) mod 7)"
      unfolding md by (simp add: monthStart_def 2)
    also have "\<dots> = nat ((int y - 1 + leapCount (int y - 1) + 3 + int d) mod 7)"
      by (rule mod7_early) simp
    also have "\<dots> = weekdayOfDate y m d"
      by (simp add: weekdayOfDate_def Let_def monthKey_def 2)
    finally show ?thesis .
  next
    case 3
    have "nat ((MakeDay y m d + 4) mod 7) =
        nat ((365 * (int y - 1970) + leapCount (int y - 1) - 477 + (59 + InLeapYear y) +
              int d - 1 + 4) mod 7)"
      unfolding md by (simp add: monthStart_def 3)
    also have "\<dots> = nat ((int y + (leapCount (int y - 1) + InLeapYear y) + 2 + int d) mod 7)"
      by (rule mod7_late) simp
    also have "\<dots> = weekdayOfDate y m d"
      by (simp add: weekdayOfDate_def Let_def monthKey_def leapCount_step 3)
    finally show ?thesis .
  next
    case 4
    have "nat ((MakeDay y m d + 4) mod 7) =
        nat ((365 * (int y - 1970) + leapCount (int y - 1) - 477 + (90 + InLeapYear y) +
              int d - 1 + 4) mod 7)"
      unfolding md by (simp add: monthStart_def 4)
    also have "\<dots> = nat ((int y + (leapCount (int y - 1) + InLeapYear y) + 5 + int d) mod 7)"
      by (rule mod7_late) simp
    also have "\<dots> = weekdayOfDate y m d"
      by (simp add: weekdayOfDate_def Let_def monthKey_def leapCount_step 4)
    finally show ?thesis .
  next
    case 5
    have "nat ((MakeDay y m d + 4) mod 7) =
        nat ((365 * (int y - 1970) + leapCount (int y - 1) - 477 + (120 + InLeapYear y) +
              int d - 1 + 4) mod 7)"
      unfolding md by (simp add: monthStart_def 5)
    also have "\<dots> = nat ((int y + (leapCount (int y - 1) + InLeapYear y) + 0 + int d) mod 7)"
      by (rule mod7_late) simp
    also have "\<dots> = weekdayOfDate y m d"
      by (simp add: weekdayOfDate_def Let_def monthKey_def leapCount_step 5)
    finally show ?thesis .
  next
    case 6
    have "nat ((MakeDay y m d + 4) mod 7) =
        nat ((365 * (int y - 1970) + leapCount (int y - 1) - 477 + (151 + InLeapYear y) +
              int d - 1 + 4) mod 7)"
      unfolding md by (simp add: monthStart_def 6)
    also have "\<dots> = nat ((int y + (leapCount (int y - 1) + InLeapYear y) + 3 + int d) mod 7)"
      by (rule mod7_late) simp
    also have "\<dots> = weekdayOfDate y m d"
      by (simp add: weekdayOfDate_def Let_def monthKey_def leapCount_step 6)
    finally show ?thesis .
  next
    case 7
    have "nat ((MakeDay y m d + 4) mod 7) =
        nat ((365 * (int y - 1970) + leapCount (int y - 1) - 477 + (181 + InLeapYear y) +
              int d - 1 + 4) mod 7)"
      unfolding md by (simp add: monthStart_def 7)
    also have "\<dots> = nat ((int y + (leapCount (int y - 1) + InLeapYear y) + 5 + int d) mod 7)"
      by (rule mod7_late) simp
    also have "\<dots> = weekdayOfDate y m d"
      by (simp add: weekdayOfDate_def Let_def monthKey_def leapCount_step 7)
    finally show ?thesis .
  next
    case 8
    have "nat ((MakeDay y m d + 4) mod 7) =
        nat ((365 * (int y - 1970) + leapCount (int y - 1) - 477 + (212 + InLeapYear y) +
              int d - 1 + 4) mod 7)"
      unfolding md by (simp add: monthStart_def 8)
    also have "\<dots> = nat ((int y + (leapCount (int y - 1) + InLeapYear y) + 1 + int d) mod 7)"
      by (rule mod7_late) simp
    also have "\<dots> = weekdayOfDate y m d"
      by (simp add: weekdayOfDate_def Let_def monthKey_def leapCount_step 8)
    finally show ?thesis .
  next
    case 9
    have "nat ((MakeDay y m d + 4) mod 7) =
        nat ((365 * (int y - 1970) + leapCount (int y - 1) - 477 + (243 + InLeapYear y) +
              int d - 1 + 4) mod 7)"
      unfolding md by (simp add: monthStart_def 9)
    also have "\<dots> = nat ((int y + (leapCount (int y - 1) + InLeapYear y) + 4 + int d) mod 7)"
      by (rule mod7_late) simp
    also have "\<dots> = weekdayOfDate y m d"
      by (simp add: weekdayOfDate_def Let_def monthKey_def leapCount_step 9)
    finally show ?thesis .
  next
    case 10
    have "nat ((MakeDay y m d + 4) mod 7) =
        nat ((365 * (int y - 1970) + leapCount (int y - 1) - 477 + (273 + InLeapYear y) +
              int d - 1 + 4) mod 7)"
      unfolding md by (simp add: monthStart_def 10)
    also have "\<dots> = nat ((int y + (leapCount (int y - 1) + InLeapYear y) + 6 + int d) mod 7)"
      by (rule mod7_late) simp
    also have "\<dots> = weekdayOfDate y m d"
      by (simp add: weekdayOfDate_def Let_def monthKey_def leapCount_step 10)
    finally show ?thesis .
  next
    case 11
    have "nat ((MakeDay y m d + 4) mod 7) =
        nat ((365 * (int y - 1970) + leapCount (int y - 1) - 477 + (304 + InLeapYear y) +
              int d - 1 + 4) mod 7)"
      unfolding md by (simp add: monthStart_def 11)
    also have "\<dots> = nat ((int y + (leapCount (int y - 1) + InLeapYear y) + 2 + int d) mod 7)"
      by (rule mod7_late) simp
    also have "\<dots> = weekdayOfDate y m d"
      by (simp add: weekdayOfDate_def Let_def monthKey_def leapCount_step 11)
    finally show ?thesis .
  next
    case 12
    have "nat ((MakeDay y m d + 4) mod 7) =
        nat ((365 * (int y - 1970) + leapCount (int y - 1) - 477 + (334 + InLeapYear y) +
              int d - 1 + 4) mod 7)"
      unfolding md by (simp add: monthStart_def 12)
    also have "\<dots> = nat ((int y + (leapCount (int y - 1) + InLeapYear y) + 4 + int d) mod 7)"
      by (rule mod7_late) simp
    also have "\<dots> = weekdayOfDate y m d"
      by (simp add: weekdayOfDate_def Let_def monthKey_def leapCount_step 12)
    finally show ?thesis .
  qed
qed

lemma parseDate_month:
  assumes "parseDate t = Some (y, m, d)"
  shows "1 \<le> m \<and> m \<le> 12"
  using assms unfolding parseDate_def Let_def by (auto split: if_splits)

lemma weekdayOfDate_less: "weekdayOfDate y m d < 7"
  by (simp add: weekdayOfDate_def Let_def nat_less_iff)

lemma days_nth: "w < 7 \<Longrightarrow> days ! w = dayNameIndonesian w"
proof -
  assume "w < 7"
  then have "w = 0 \<or> w = 1 \<or> w = 2 \<or> w = 3 \<or> w = 4 \<or> w = 5 \<or> w = 6" by presburger
  then show ?thesis by (auto simp: days_def dayNameIndonesian_def)
qed

lemma getDayName_dated:
  assumes "isDateText s" and "midnightOnDate z s"
  shows "getDayName z s = Some (weekdayName s)"
proof -
  obtain y m d where p: "parseDate (s @ ''T00:00:00'') = Some (y, m, d)"
    using assms(1) unfolding isDateText_def by (cases "parseDate (s @ ''T00:00:00'')") auto
  have m: "1 \<le> m" "m \<le> 12" using parseDate_month [OF p] by simp_all
  have "Day (LocalTime z (UTC z (MakeDate (MakeDay y m d) 0))) = MakeDay y m d"
    using assms(2) p by (simp add: midnightOnDate_def)
  then have "WeekDay (LocalTime z (UTC z (MakeDate (MakeDay y m d) 0))) = weekdayOfDate y m d"
    using weekday_agrees [OF m, of y d] by (simp add: WeekDay_def)
  then have "getDayName z s = Some (days ! weekdayOfDate y m d)"
    using p by (simp add: getDayName_def getDay_def)
  then show ?thesis
    using p by (simp add: weekdayName_def days_nth weekdayOfDate_less)
qed

lemma noteMatches_dated:
  assumes "isDateText (date n)" and "midnightOnDate z (date n)"
  shows "noteMatches z (trim (toLowerCase q)) n = Inr (search_matches q n)"
proof -
  have d: "toLowerCase (date n) = date n" using assms(1) by (rule toLowerCase_date)
  have g: "getDayName z (date n) = Some (weekdayName (date n))"
    using assms by (rule getDayName_dated)
  show ?thesis
    by (simp add: noteMatches_def g search_matches_def contains_ci_def includes_str_def d
        trim_toLowerCase Let_def)
qed

lemma monday_2025_01_20: "weekdayName ''2025-01-20'' = ''Senin''"
  by code_simp

text \<open>
  Claim C8, as the spec states it: for every note list and query a note matches iff
  the query is contained in its date, in the localized name of the date's day of the
  week, or in its content; a note dated 2025-01-20 is matched by \<open>senin\<close> or
  \<open>monday\<close>, by locale. The component has no locale: the names of the days are a
  fixed Indonesian table, and \<open>monday\<close> does not match the note. On a note whose date
  is not a date text the day name is \<open>undefined\<close> and the search throws, whatever the
  content. In a zone that skipped the day, the day name is that of the next day: in
  Apia a note dated 2011-12-30, a Friday, is not found by \<open>jumat\<close>.
\<close>

theorem note_search_counterexample:
  "date note_monday = ''2025-01-20'' \<and>
   filteredNotes zone_jakarta [note_monday] ''monday'' = Inr [] \<and>
   contains_ci (content note_slashes) ''rapat'' \<and>
   filteredNotes zone_jakarta [note_slashes] ''rapat'' = Inl TypeError \<and>
   weekdayName (date note_apia) = ''Jumat'' \<and>
   filteredNotes zone_apia [note_apia] ''jumat'' = Inr []"
  by code_simp

text \<open>
  Claim C8, amended: for notes whose dates are date texts \<open>YYYY-MM-DD\<close> (the dates the
  container writes), in a time zone that has not skipped any of these dates, the
  search returns, in order, exactly the notes for which the trimmed query is
  contained, case-insensitively, in the date, or in the Indonesian name of the date's
  day of the week, or in the content; a blank query returns every note. A note dated
  2025-01-20 has the day name Senin; it is matched by the queries \<open>2025-01-20\<close> and
  \<open>senin\<close> and by every query that its content contains case-insensitively; it is
  not matched by a query that none of the three fields contains, and so not by
  \<open>monday\<close> unless its content contains it.
\<close>

theorem note_search:
  assumes "\<forall>n \<in> set ns. isDateText (date n) \<and> midnightOnDate z (date n)"
  shows "filteredNotes z ns q = Inr (filter (search_matches q) ns) \<and>
    (trim q = [] \<longrightarrow> filteredNotes z ns q = Inr ns) \<and>
    (\<forall>n \<in> set ns. date n = ''2025-01-20'' \<longrightarrow>
       weekdayName (date n) = ''Senin'' \<and>
       search_matches ''2025-01-20'' n \<and> search_matches ''senin'' n \<and>
       (contains_ci (content n) q \<longrightarrow> search_matches q n) \<and>
       (\<not> contains_ci ''2025-01-20'' (trim q) \<and> \<not> contains_ci ''Senin'' (trim q) \<and>
        \<not> contains_ci (content n) (trim q) \<longrightarrow> \<not> search_matches q n) \<and>
       (\<not> contains_ci (content n) ''monday'' \<longrightarrow> \<not> search_matches ''monday'' n))"
proof (intro conjI)
  show f: "filteredNotes z ns q = Inr (filter (search_matches q) ns)"
  proof (cases "trim q = []")
    case True
    then have "\<And>n. search_matches q n" by (simp add: search_matches_def contains_ci_Nil)
    then show ?thesis using True by (simp add: filteredNotes_def)
  next
    case False
    have "filterE (noteMatches z (trim (toLowerCase q))) ns = Inr (filter (search_matches q) ns)"
      using assms by (intro filterE_total noteMatches_dated) simp_all
    then show ?thesis using False by (simp add: filteredNotes_def)
  qed
  show "trim q = [] \<longrightarrow> filteredNotes z ns q = Inr ns" by (simp add: filteredNotes_def)
  show "\<forall>n \<in> set ns. date n = ''2025-01-20'' \<longrightarrow>
       weekdayName (date n) = ''Senin'' \<and>
       search_matches ''2025-01-20'' n \<and> search_matches ''senin'' n \<and>
       (contains_ci (content n) q \<longrightarrow> search_matches q n) \<and>
       (\<not> contains_ci ''2025-01-20'' (trim q) \<and> \<not> contains_ci ''Senin'' (trim q) \<and>
        \<not> contains_ci (content n) (trim q) \<longrightarrow> \<not> search_matches q n) \<and>
       (\<not> contains_ci (content n) ''monday'' \<longrightarrow> \<not> search_matches ''monday'' n)"
  proof (intro ballI impI conjI)
    fix n :: Note
    assume d: "date n = ''2025-01-20''"
    show w: "weekdayName (date n) = ''Senin''" using d monday_2025_01_20 by simp
    have t: "trim ''2025-01-20'' = ''2025-01-20''" "trim ''senin'' = ''senin''"
      "trim ''monday'' = ''monday''"
      by (simp_all add: trim_def isWhiteSpace_def)
    have "contains_ci ''2025-01-20'' ''2025-01-20''" by (simp add: contains_ci_def)
    then show "search_matches ''2025-01-20'' n" by (simp add: search_matches_def d t)
    have "contains_ci ''Senin'' ''senin''"
      by (simp add: contains_ci_def toLowerCase_def lowerChar_def char_of_numeral_eval)
    then show "search_matches ''senin'' n" using w by (simp add: search_matches_def t)
    show "search_matches q n" if "contains_ci (content n) q"
      using contains_ci_trim [OF that] by (simp add: search_matches_def)
    show "\<not> search_matches q n"
      if "\<not> contains_ci ''2025-01-20'' (trim q) \<and> \<not> contains_ci ''Senin'' (trim q) \<and>
          \<not> contains_ci (content n) (trim q)"
      using that w d by (simp add: search_matches_def)
    have "\<not> contains_ci ''2025-01-20'' ''monday''" "\<not> contains_ci ''Senin'' ''monday''"
      by code_simp+
    then show "\<not> search_matches ''monday'' n" if "\<not> contains_ci (content n) ''monday''"
      using that w d by (simp add: search_matches_def t)
  qed
qed

theorem note_search_witness:
  "isDateText (date note_monday) \<and> midnightOnDate zone_jakarta (date note_monday) \<and>
   isDateText (date note_sunday) \<and> midnightOnDate zone_jakarta (date note_sunday) \<and>
   filteredNotes zone_jakarta [note_monday, note_sunday] ''  SENIN '' = Inr [note_monday] \<and>
   filteredNotes zone_jakarta [note_monday, note_sunday] ''2025-01-20'' = Inr [note_monday] \<and>
   filteredNotes zone_jakarta [note_monday, note_sunday] ''rapat TIM'' = Inr [note_monday] \<and>
   filteredNotes zone_jakarta [note_monday, note_sunday] ''zebra'' = Inr [] \<and>
   filteredNotes zone_jakarta [note_monday, note_sunday] ''monday'' = Inr [] \<and>
   filteredNotes zone_jakarta [note_monday, note_sunday] ''   '' = Inr [note_monday, note_sunday]"
proof -
  have c: "isDateText (date note_monday)" "midnightOnDate zone_jakarta (date note_monday)"
    "isDateText (date note_sunday)" "midnightOnDate zone_jakarta (date note_sunday)"
    by code_simp+
  then have h: "\<forall>n \<in> set [note_monday, note_sunday].
      isDateText (date n) \<and> midnightOnDate zone_jakarta (date n)" by simp
  have m: "search_matches ''  SENIN '' note_monday" "\<not> search_matches ''  SENIN '' note_sunday"
    "search_matches ''2025-01-20'' note_monday" "\<not> search_matches ''2025-01-20'' note_sunday"
    "search_matches ''rapat TIM'' note_monday" "\<not> search_matches ''rapat TIM'' note_sunday"
    "\<not> search_matches ''zebra'' note_monday" "\<not> search_matches ''zebra'' note_sunday"
    "\<not> search_matches ''monday'' note_monday" "\<not> search_matches ''monday'' note_sunday"
    "search_matches ''   '' note_monday" "search_matches ''   '' note_sunday"
    by code_simp+
  show ?thesis
    using note_search [OF h, of "''  SENIN ''", THEN conjunct1]
      note_search [OF h, of "''2025-01-20''", THEN conjunct1]
      note_search [OF h, of "''rapat TIM''", THEN conjunct1]
      note_search [OF h, of "''zebra''", THEN conjunct1]
      note_search [OF h, of "''monday''", THEN conjunct1]
      note_search [OF h, of "''   ''", THEN conjunct1]
    by (simp add: c m)
qed

section \<open>Facts about the store adapter\<close>

lemma setValue_state: "fst (setValue stringify key (Updater f) (cur, st)) = f cur"
  by (simp add: setValue_def Let_def split: option.splits sum.splits)

lemma setValue_stored:
  assumes "stringify v = Some s" and "available st" and "accepts st key s"
  shows "items (snd (setValue stringify key (Value v) (cur, st))) key = Some s"
  using assms by (simp add: setValue_def setItem_def)

lemma setValue_refused:
  assumes "stringify v = Some s" and "\<not> available st \<or> \<not> accepts st key s"
  shows "snd (setValue stringify key (Value v) (cur, st)) = st"
  using assms by (auto simp: setValue_def setItem_def)

lemma setValue_available:
  "available (snd (setValue stringify key u (cur, st))) = available st"
  by (simp add: setValue_def setItem_def Let_def split: option.splits)

text \<open>
  Claim C9, as the spec states it: for every key and every JSON-serializable value, a
  write followed by a read returns the value. The write catches the exception of a
  storage that refuses it (quota exceeded, access denied) and leaves the entry as it
  was: on a full storage the read after the write returns the fallback.
\<close>

theorem store_round_trip_counterexample:
  "stringifyBool True = Some ''true'' \<and> parseBool ''true'' = Some True \<and>
   readStored parseBool (snd (setValue stringifyBool ''flag'' (Value True) (False, storage_full)))
     ''flag'' False \<noteq> True"
  by (simp add: stringifyBool_def parseBool_def readStored_def setValue_def setItem_def
      getItem_def truthy_def storage_full_def)

text \<open>
  Claim C9, amended: for a value that JSON encodes and decodes back to itself, a write
  that the storage accepts, followed by a read of the same key, returns the value; a
  write that the storage refuses changes nothing in the storage, so the read returns
  what it returned before the write, while the in-memory state holds the value in both
  cases. A read of a key with no entry, of an entry whose text does not decode, or
  from a storage that denies access, returns the fallback. The value being
  JSON-serializable is the first two hypotheses; the third is that \<open>JSON.parse\<close>
  throws on the empty text.
\<close>

theorem store_round_trip_when_write_accepted:
  assumes "stringify v = Some s" and "parse s = Some v" and "parse [] = None"
  shows "fst (setValue stringify key (Value v) (cur, st)) = v \<and>
         (available st \<and> accepts st key s \<longrightarrow>
           readStored parse (snd (setValue stringify key (Value v) (cur, st))) key fallback = v) \<and>
         (\<not> available st \<or> \<not> accepts st key s \<longrightarrow>
           readStored parse (snd (setValue stringify key (Value v) (cur, st))) key fallback =
             readStored parse st key fallback) \<and>
         (items st key = None \<longrightarrow> readStored parse st key fallback = fallback) \<and>
         (\<forall>t. items st key = Some t \<and> parse t = None \<longrightarrow>
           readStored parse st key fallback = fallback) \<and>
         (\<not> available st \<longrightarrow> readStored parse st key fallback = fallback)"
proof (intro conjI impI allI)
  show "fst (setValue stringify key (Value v) (cur, st)) = v"
    by (simp add: setValue_def split: option.splits sum.splits)
next
  assume a: "available st \<and> accepts st key s"
  have ne: "s \<noteq> []" using assms(2,3) by auto
  have "items (snd (setValue stringify key (Value v) (cur, st))) key = Some s"
    using assms(1) a by (simp add: setValue_stored)
  moreover have "available (snd (setValue stringify key (Value v) (cur, st)))"
    using a by (simp add: setValue_available)
  ultimately show
    "readStored parse (snd (setValue stringify key (Value v) (cur, st))) key fallback = v"
    using assms(2) ne by (simp add: readStored_def getItem_def truthy_def)
next
  assume "\<not> available st \<or> \<not> accepts st key s"
  then have "snd (setValue stringify key (Value v) (cur, st)) = st"
    using assms(1) by (rule setValue_refused [rotated])
  then show "readStored parse (snd (setValue stringify key (Value v) (cur, st))) key fallback =
             readStored parse st key fallback" by simp
next
  assume "items st key = None"
  then show "readStored parse st key fallback = fallback"
    by (simp add: readStored_def getItem_def truthy_def)
next
  fix t assume "items st key = Some t \<and> parse t = None"
  then show "readStored parse st key fallback = fallback"
    by (simp add: readStored_def getItem_def truthy_def)
next
  assume "\<not> available st"
  then show "readStored parse st key fallback = fallback"
    by (simp add: readStored_def getItem_def)
qed

theorem store_round_trip_witness:
  "stringifyBool True = Some ''true'' \<and> parseBool ''true'' = Some True \<and>
   parseBool [] = None \<and>
   available storage_empty \<and> accepts storage_empty ''flag'' ''true'' \<and>
   readStored parseBool (snd (setValue stringifyBool ''flag'' (Value True) (False, storage_empty)))
     ''flag'' False = True \<and>
   items storage_empty ''flag'' = None \<and>
   readStored parseBool storage_empty ''flag'' False = False"
proof -
  have a: "stringifyBool True = Some ''true''" "parseBool ''true'' = Some True"
    "parseBool [] = None"
    by (simp_all add: stringifyBool_def parseBool_def)
  have b: "available storage_empty" "accepts storage_empty ''flag'' ''true''"
    "items storage_empty ''flag'' = None"
    by (simp_all add: storage_empty_def)
  show ?thesis
    using store_round_trip_when_write_accepted
        [where stringify = stringifyBool and parse = parseBool and v = True and s = "''true''"
           and st = storage_empty and key = "''flag''" and cur = False and fallback = False]
      a b
    by simp
qed

text \<open>
  Claim C10: the handler of an external change replaces the in-memory value only when
  the event is for the adapter's own key and carries a new value that is not null and
  decodes as JSON, and then by the decoded value. An event for another key, the
  removal of the key (a null new value) and a new value that does not decode leave the
  in-memory value as it is.
\<close>

theorem external_change_applies_only_parsed_values:
  "(handleStorageChange parse key e cur \<noteq> cur \<longrightarrow>
      evKey e = Some key \<and>
      (\<exists>s. newValue e = Some s \<and> parse s = Some (handleStorageChange parse key e cur))) \<and>
   (evKey e \<noteq> Some key \<longrightarrow> handleStorageChange parse key e cur = cur) \<and>
   (newValue e = None \<longrightarrow> handleStorageChange parse key e cur = cur) \<and>
   (\<forall>s. newValue e = Some s \<and> parse s = None \<longrightarrow> handleStorageChange parse key e cur = cur) \<and>
   (\<forall>s v. evKey e = Some key \<and> newValue e = Some s \<and> s \<noteq> [] \<and> parse s = Some v \<longrightarrow>
      handleStorageChange parse key e cur = v)"
  by (auto simp: handleStorageChange_def truthy_def split: option.splits if_splits)

theorem external_change_witness:
  "handleStorageChange parseBool ''flag'' \<lparr>evKey = Some ''flag'', newValue = Some ''true''\<rparr> False
     = True \<and>
   handleStorageChange parseBool ''flag'' \<lparr>evKey = Some ''flag'', newValue = None\<rparr> True = True \<and>
   handleStorageChange parseBool ''flag'' \<lparr>evKey = Some ''flag'', newValue = Some ''tru''\<rparr> True
     = True \<and>
   handleStorageChange parseBool ''flag'' \<lparr>evKey = Some ''other'', newValue = Some ''false''\<rparr> True
     = True"
  using external_change_applies_only_parsed_values
      [of parseBool "''flag''" "\<lparr>evKey = Some ''flag'', newValue = Some ''true''\<rparr>" False]
    external_change_applies_only_parsed_values
      [of parseBool "''flag''" "\<lparr>evKey = Some ''flag'', newValue = None\<rparr>" True]
    external_change_applies_only_parsed_values
      [of parseBool "''flag''" "\<lparr>evKey = Some ''flag'', newValue = Some ''tru''\<rparr>" True]
    external_change_applies_only_parsed_values
      [of parseBool "''flag''" "\<lparr>evKey = Some ''other'', newValue = Some ''false''\<rparr>" True]
  by (simp add: parseBool_def handleStorageChange_def truthy_def)

section \<open>Facts about the containers on the store adapter\<close>

text \<open>
  The updater of a toggle, applied twice, gives every record its \<open>completed\<close>
  flag back (only the modification timestamp of the matching records is new), and on
  an identifier that no record has it leaves the list as it was.
\<close>

lemma toggleTodo_twice:
  "map completed (toggleTodo n2 i (toggleTodo n1 i xs)) = map completed xs \<and>
   toggleTodo n2 i (toggleTodo n1 i xs) =
     map (\<lambda>t. if idT t = i then t\<lparr>updatedAt := n2\<rparr> else t) xs \<and>
   (i \<notin> set (map idT xs) \<longrightarrow> toggleTodo n1 i xs = xs)"
  by (induction xs) (auto simp: toggleTodo_def)

lemma fst_callsInRender_snoc:
  "fst (callsInRender stringify key x (us @ [Updater f]) state) = f x"
  by (induction us arbitrary: state) (simp_all add: setValue_state)

text \<open>
  Two toggles that a render separates: the second call sees the list the first has
  set, and the flags are back.
\<close>

lemma toggle_twice_in_two_renders:
  "map completed
     (fst (handlerCalls stringify ''todos'' [Updater (toggleTodo n2 i)]
        (handlerCalls stringify ''todos'' [Updater (toggleTodo n1 i)] (xs, st))))
   = map completed xs"
proof -
  have "fst (handlerCalls stringify ''todos'' [Updater (toggleTodo n2 i)]
        (handlerCalls stringify ''todos'' [Updater (toggleTodo n1 i)] (xs, st)))
      = toggleTodo n2 i (toggleTodo n1 i xs)"
    by (simp add: handlerCalls_def setValue_state)
  then show ?thesis using toggleTodo_twice [of n2 i n1 xs] by simp
qed

text \<open>
  Claim C4: \<open>toggle(id)\<close> twice returns the \<open>completed\<close> flag of the record to its
  original value, and a toggle on an absent identifier leaves the list unchanged. The
  container does not do the first when both calls are made in one render: each call
  hands its updater to the adapter's \<open>setValue\<close>, which applies it to the list of the
  render and not to the list the call before has set, against the comment at
  \<open>addTodo\<close> that \<open>prev\<close> is the latest value. The list holds one record with
  \<open>completed = false\<close>; after two toggles of its identifier in one event handler the
  record has \<open>completed = true\<close>.
\<close>

theorem toggle_twice_in_one_render:
  "fst (handlerCalls stringify ''todos''
          [Updater (toggleTodo n1 ''1-a''), Updater (toggleTodo n2 ''1-a'')]
          ([todo_milk], st))
     = [todo_milk\<lparr>completed := True, updatedAt := n2\<rparr>] \<and>
   idT todo_milk = ''1-a'' \<and> completed todo_milk = False"
proof -
  have "fst (handlerCalls stringify ''todos''
          ([Updater (toggleTodo n1 ''1-a'')] @ [Updater (toggleTodo n2 ''1-a'')])
          ([todo_milk], st)) = toggleTodo n2 ''1-a'' [todo_milk]"
    unfolding handlerCalls_def by (simp only: fst_callsInRender_snoc fst_conv)
  then show ?thesis by (simp add: toggleTodo_def todo_milk_def)
qed

end
